theory Spec2Isabelle
  imports Main
begin

section \<open>uptomssql: loading JSON and CSV files into SQL Server tables\<close>

text \<open>
  A shallow embedding of \<^verbatim>\<open>main.go\<close>. The second source file of the repository is the
  same program with \<^verbatim>\<open>must\<close> replaced by \<^verbatim>\<open>handleError\<close>, which prints a
  description and exits with a code where \<^verbatim>\<open>must\<close> panics; parsing of file names,
  reading of CSV rows, projection of a row on the schema and building of the statement
  are the same text in both.
\<close>

subsection \<open>Failures\<close>

text \<open>
  Every way the program stops early is a value: a run-time panic of an index expression,
  \<^verbatim>\<open>panic(v)\<close> with a message or an error, and \<^verbatim>\<open>log.Fatalf\<close>, which prints the
  message and exits with status 1.
\<close>

datatype failure =
    IndexOutOfRange
  | Panic string
  | Fatal string

text \<open>The index expression \<^verbatim>\<open>xs[i]\<close> of a slice.\<close>

definition index :: "'a list \<Rightarrow> nat \<Rightarrow> failure + 'a" where
  "index xs i = (if i < length xs then Inr (xs ! i) else Inl IndexOutOfRange)"

subsection \<open>The functions of package strings that the program calls\<close>

text \<open>
  \<open>cut sep s\<close> is the text before and after the first \<open>sep\<close> in \<open>s\<close>, if there is one.
  The separators of the program are single bytes.
\<close>

fun cut :: "char \<Rightarrow> string \<Rightarrow> (string \<times> string) option" where
  "cut sep [] = None"
| "cut sep (x # xs) =
     (if x = sep then Some ([], xs)
      else (case cut sep xs of None \<Rightarrow> None | Some (a, b) \<Rightarrow> Some (x # a, b)))"

text \<open>
  \<^verbatim>\<open>strings.SplitN(s, sep, n)\<close> for \<open>n \<ge> 0\<close>: no substring for \<open>n = 0\<close>, else at most
  \<open>n\<close> substrings, the last one the unsplit remainder.
\<close>

fun strings_SplitN :: "string \<Rightarrow> char \<Rightarrow> nat \<Rightarrow> string list" where
  "strings_SplitN s sep 0 = []"
| "strings_SplitN s sep (Suc 0) = [s]"
| "strings_SplitN s sep (Suc (Suc n)) =
     (case cut sep s of
        None \<Rightarrow> [s]
      | Some (a, b) \<Rightarrow> a # strings_SplitN b sep (Suc n))"

text \<open>\<^verbatim>\<open>strings.Split(s, sep)\<close>: all substrings between separators, at least one.\<close>

fun strings_Split :: "string \<Rightarrow> char \<Rightarrow> string list" where
  "strings_Split [] sep = [[]]"
| "strings_Split (x # xs) sep =
     (if x = sep then [] # strings_Split xs sep
      else (case strings_Split xs sep of
              [] \<Rightarrow> [[x]]
            | y # ys \<Rightarrow> (x # y) # ys))"

text \<open>\<^verbatim>\<open>strings.Join(elems, sep)\<close>.\<close>

fun strings_Join :: "string list \<Rightarrow> string \<Rightarrow> string" where
  "strings_Join [] sep = []"
| "strings_Join [e] sep = e"
| "strings_Join (e # es) sep = e @ sep @ strings_Join es sep"

subsection \<open>Table name and format of a file name\<close>

datatype Format = Json | Csv

definition getFileFormat :: "string \<Rightarrow> failure + Format" where
  "getFileFormat strFormat =
     (if strFormat = ''json'' then Inr Json
      else if strFormat = ''csv'' then Inr Csv
      else Inl (Panic ''incorrect format''))"

text \<open>
  The function literal that \<^verbatim>\<open>main\<close> applies to each file name. The operands of its
  \<^verbatim>\<open>return\<close> statements are evaluated from left to right, so the index expression
  \<^verbatim>\<open>nameAndExt[1]\<close> panics before \<^verbatim>\<open>getFileFormat\<close> is called.
\<close>

definition tableNameAndExt :: "string \<Rightarrow> failure + (string \<times> Format)" where
  "tableNameAndExt fn =
     (case index (strings_SplitN fn (CHR ''_'') 2) 1 of
        Inl e \<Rightarrow> Inl e
      | Inr rest \<Rightarrow>
          (let nameAndExt = strings_Split rest (CHR ''.'') in
           if length nameAndExt > 2 then
             (let li = length nameAndExt - 1;
                  name = strings_Join (take li nameAndExt) [] in
              case index nameAndExt li of
                Inl e \<Rightarrow> Inl e
              | Inr strFormat \<Rightarrow>
                  (case getFileFormat strFormat of
                     Inl e \<Rightarrow> Inl e
                   | Inr ext \<Rightarrow> Inr (name, ext)))
           else
             (case index nameAndExt 0 of
                Inl e \<Rightarrow> Inl e
              | Inr name \<Rightarrow>
                  (case index nameAndExt 1 of
                     Inl e \<Rightarrow> Inl e
                   | Inr strFormat \<Rightarrow>
                       (case getFileFormat strFormat of
                          Inl e \<Rightarrow> Inl e
                        | Inr ext \<Rightarrow> Inr (name, ext))))))"

subsection \<open>Records, values and the schema of a table\<close>

text \<open>
  A value of a record is an interface value. The program makes \<^verbatim>\<open>int\<close> values itself
  (a CSV cell that \<^verbatim>\<open>strconv.Atoi\<close> accepts) and compares values with a string; the
  other dynamic types that \<^verbatim>\<open>json.Unmarshal\<close> stores (nil, bool, float64, slices and
  maps) it only passes on to the database, so they stay a parameter of the embedding.
\<close>

datatype 'a val = IntVal int | StrVal string | OtherVal 'a

type_synonym 'a row = "string \<rightharpoonup> 'a val"

text \<open>\<^verbatim>\<open>ColumnDefault\<close> is an \<^verbatim>\<open>sql.NullString\<close>: \<open>None\<close> when \<^verbatim>\<open>Valid\<close> is false.\<close>

record ColumnSchema =
  ColumnName :: string
  IsNullable :: string
  ColumnDefault :: "string option"
  DataType :: string

text \<open>
  The condition \<^verbatim>\<open>colSchema.IsNullable != "YES" && !colSchema.ColumnDefault.Valid\<close>, which
  the program writes twice.
\<close>

definition notNullNoDefault :: "ColumnSchema \<Rightarrow> bool" where
  "notNullNoDefault colSchema =
     (IsNullable colSchema \<noteq> ''YES'' \<and> ColumnDefault colSchema = None)"

subsection \<open>Projection of a row on the schema\<close>

text \<open>
  The loop \<^verbatim>\<open>for col, colSchema := range schema\<close> over one row. Go leaves the order in
  which a map is ranged over unspecified, so the loop takes the pairs of the map in the
  order the range statement yields them. The two slices \<^verbatim>\<open>columns\<close> and
  \<^verbatim>\<open>values\<close> are the loop's state.
\<close>

fun project ::
  "Format \<Rightarrow> string list \<Rightarrow> 'a row \<Rightarrow> (string \<times> ColumnSchema) list \<Rightarrow>
   string list \<times> 'a val list \<Rightarrow> failure + (string list \<times> 'a val list)" where
  "project ext computeColumns records [] (columns, values) = Inr (columns, values)"
| "project ext computeColumns records ((col, colSchema) # rest) (columns, values) =
     (case records col of
        Some v \<Rightarrow>
          if DataType colSchema = ''timestamp'' \<or> col \<in> set computeColumns then
            project ext computeColumns records rest (columns, values)
          else if ext = Csv \<and> v = StrVal ''NULL'' then
            (if notNullNoDefault colSchema then
               Inl (Fatal (''required field '' @ col @ '' missing from csv''))
             else project ext computeColumns records rest (columns, values))
          else
            project ext computeColumns records rest
              (columns @ [''['' @ col @ '']''], values @ [v])
      | None \<Rightarrow>
          if notNullNoDefault colSchema then
            Inl (Fatal (''required field '' @ col @ '' missing from json''))
          else project ext computeColumns records rest (columns, values))"

text \<open>
  What the body of the loop does with one column, read off the branches above: it leaves
  the slices as they are, it stops the program, or it appends the column and its value.
  \<open>project_Cons\<close> below shows the loop takes exactly this decision at every column.
\<close>

datatype 'a decision = Skip | Reject string | Keep "'a val"

definition decide ::
  "Format \<Rightarrow> string list \<Rightarrow> 'a row \<Rightarrow> string \<Rightarrow> ColumnSchema \<Rightarrow> 'a decision" where
  "decide ext computeColumns records col colSchema =
     (case records col of
        Some v \<Rightarrow>
          if DataType colSchema = ''timestamp'' \<or> col \<in> set computeColumns then Skip
          else if ext = Csv \<and> v = StrVal ''NULL'' then
            (if notNullNoDefault colSchema then
               Reject (''required field '' @ col @ '' missing from csv'')
             else Skip)
          else Keep v
      | None \<Rightarrow>
          if notNullNoDefault colSchema then
            Reject (''required field '' @ col @ '' missing from json'')
          else Skip)"

subsection \<open>The statement of a row\<close>

text \<open>\<^verbatim>\<open>fmt.Sprintf("%d", n)\<close> for a number that is not negative.\<close>

fun decimal :: "nat \<Rightarrow> string" where
  "decimal n =
     (if n < 10 then [''0123456789'' ! n]
      else decimal (n div 10) @ [''0123456789'' ! (n mod 10)])"

declare decimal.simps [simp del]

text \<open>The loops over \<^verbatim>\<open>columns\<close> that build \<^verbatim>\<open>placeholders\<close> and \<^verbatim>\<open>columnsStr\<close>.\<close>

fun placeholdersLoop :: "nat \<Rightarrow> string list \<Rightarrow> string \<Rightarrow> string" where
  "placeholdersLoop i [] placeholders = placeholders"
| "placeholdersLoop i (col # rest) placeholders =
     placeholdersLoop (i + 1) rest
       ((if i > 0 then placeholders @ '', '' else placeholders) @ ''@p'' @ decimal (i + 1))"

fun columnsStrLoop :: "nat \<Rightarrow> string list \<Rightarrow> string \<Rightarrow> string" where
  "columnsStrLoop i [] columnsStr = columnsStr"
| "columnsStrLoop i (col # rest) columnsStr =
     columnsStrLoop (i + 1) rest
       ((if i > 0 then columnsStr @ '', '' else columnsStr) @ col)"

definition insertQuery :: "string \<Rightarrow> string list \<Rightarrow> string" where
  "insertQuery tableName columns =
     (let placeholders = placeholdersLoop 0 columns [];
          columnsStr = columnsStrLoop 0 columns []
      in ''INSERT INTO '' @ tableName @ '' ('' @ columnsStr @ '') VALUES ('' @
         placeholders @ '');'')"

definition buildQuery :: "string \<Rightarrow> string list \<Rightarrow> bool \<Rightarrow> string" where
  "buildQuery tableName columns isTableIdentity =
     (let query = insertQuery tableName columns in
      if isTableIdentity then
        (let identityON = ''SET IDENTITY_INSERT '' @ tableName @ '' ON;'';
             identityOFF = ''SET IDENTITY_INSERT '' @ tableName @ '' OFF;''
         in identityON @ query @ identityOFF)
      else query)"

subsection \<open>Reading a CSV file\<close>

text \<open>
  \<^verbatim>\<open>strconv.Atoi\<close> of the Go library, where \<^verbatim>\<open>int\<close> has 64 bits: an optional sign, then
  one decimal digit or more and nothing else, and a value that fits.
\<close>

definition digitVal :: "char \<Rightarrow> nat option" where
  "digitVal ch =
     map_of [(CHR ''0'', 0), (CHR ''1'', 1), (CHR ''2'', 2), (CHR ''3'', 3), (CHR ''4'', 4),
             (CHR ''5'', 5), (CHR ''6'', 6), (CHR ''7'', 7), (CHR ''8'', 8), (CHR ''9'', 9)] ch"

fun parseDigits :: "string \<Rightarrow> nat \<Rightarrow> nat option" where
  "parseDigits [] n = Some n"
| "parseDigits (ch # s) n =
     (case digitVal ch of
        None \<Rightarrow> None
      | Some d \<Rightarrow> parseDigits s (n * 10 + d))"

definition strconv_Atoi :: "string \<Rightarrow> int option" where
  "strconv_Atoi s =
     (let (neg, ds) =
        (case s of
           [] \<Rightarrow> (False, [])
         | ch # r \<Rightarrow>
             if ch = CHR ''-'' then (True, r)
             else if ch = CHR ''+'' then (False, r)
             else (False, s))
      in if ds = [] then None
         else (case parseDigits ds 0 of
                 None \<Rightarrow> None
               | Some n \<Rightarrow>
                   (let v = (if neg then - int n else int n) in
                    if - (2 ^ 63) \<le> v \<and> v < 2 ^ 63 then Some v else None)))"

text \<open>The value stored for a cell: \<^verbatim>\<open>num\<close> when \<^verbatim>\<open>Atoi\<close> returns no error, else the cell.\<close>

definition cellValue :: "string \<Rightarrow> 'a val" where
  "cellValue cell =
     (case strconv_Atoi cell of
        Some num \<Rightarrow> IntVal num
      | None \<Rightarrow> StrVal cell)"

text \<open>The loop \<^verbatim>\<open>for i, header := range headers\<close> that fills one row.\<close>

fun csvRow :: "nat \<Rightarrow> string list \<Rightarrow> string list \<Rightarrow> 'a row \<Rightarrow> failure + 'a row" where
  "csvRow i [] record row = Inr row"
| "csvRow i (header # rest) record row =
     (case index record i of
        Inl e \<Rightarrow> Inl e
      | Inr cell \<Rightarrow> csvRow (i + 1) rest record (row(header \<mapsto> cellValue cell)))"

text \<open>
  The CSV reader is the library's. A file is the list of what the successive calls of
  \<^verbatim>\<open>r.Read()\<close> return before \<^verbatim>\<open>io.EOF\<close>: the fields of a record, or an error.
\<close>

type_synonym reads = "(string + string list) list"

fun csvRecords :: "string list \<Rightarrow> reads \<Rightarrow> 'a row list \<Rightarrow> failure + 'a row list" where
  "csvRecords headers [] allRecords = Inr allRecords"
| "csvRecords headers (Inl err # rest) allRecords = Inl (Panic err)"
| "csvRecords headers (Inr record # rest) allRecords =
     (case csvRow 0 headers record Map.empty of
        Inl e \<Rightarrow> Inl e
      | Inr row \<Rightarrow> csvRecords headers rest (allRecords @ [row]))"

definition readCsv :: "reads \<Rightarrow> failure + 'a row list" where
  "readCsv rs =
     (case rs of
        [] \<Rightarrow> Inl (Panic ''EOF'')
      | Inl err # rest \<Rightarrow> Inl (Panic err)
      | Inr headers # rest \<Rightarrow> csvRecords headers rest [])"

subsection \<open>The database, the files and the run\<close>

text \<open>
  What the program reads from outside is a parameter: the directory listing, the rows
  that \<^verbatim>\<open>db.Select\<close> returns for each of the three queries, what \<^verbatim>\<open>db.Exec\<close> does
  to the database, the records that \<^verbatim>\<open>os.ReadFile\<close> and \<^verbatim>\<open>json.Unmarshal\<close> give
  for a path, the reads of the CSV reader opened on a path, and the order of each range
  statement over a schema (they are numbered as they run). An error is its text.
\<close>

record ('db, 'a) env =
  ReadDir :: "string \<Rightarrow> string + string list"
  SelectColumns :: "'db \<Rightarrow> string \<Rightarrow> string + ColumnSchema list"
  SelectIdentityCount :: "'db \<Rightarrow> string \<Rightarrow> string + int list"
  SelectComputed :: "'db \<Rightarrow> string \<Rightarrow> string + string list"
  Exec :: "'db \<Rightarrow> string \<Rightarrow> 'a val list \<Rightarrow> string + 'db"
  ReadJson :: "string \<Rightarrow> string + 'a row list"
  OpenCsv :: "string \<Rightarrow> string + reads"
  rangeOrder :: "nat \<Rightarrow> (string \<rightharpoonup> ColumnSchema) \<Rightarrow> (string \<times> ColumnSchema) list"

text \<open>
  The state of a run: the database, the lines printed on standard output, and the number
  of range statements over a schema run so far.
\<close>

record 'db world =
  db :: 'db
  stdout :: "string list"
  ranged :: nat

text \<open>How a loop, and the run, ends: at its end, by \<^verbatim>\<open>return\<close> from \<^verbatim>\<open>main\<close>, or failing.\<close>

datatype outcome = Done | Returned | Failed failure

text \<open>\<^verbatim>\<open>must\<close> panics with the error.\<close>

definition must :: "string + 'b \<Rightarrow> failure + 'b" where
  "must r = (case r of Inl err \<Rightarrow> Inl (Panic err) | Inr res \<Rightarrow> Inr res)"

definition getTableSchema ::
  "('db, 'a) env \<Rightarrow> 'db \<Rightarrow> string \<Rightarrow> string + (string \<rightharpoonup> ColumnSchema)" where
  "getTableSchema E d tableName =
     (case SelectColumns E d tableName of
        Inl err \<Rightarrow> Inl err
      | Inr cols \<Rightarrow> Inr (fold (\<lambda>col schema. schema(ColumnName col \<mapsto> col)) cols Map.empty))"

text \<open>
  \<^verbatim>\<open>isTableHasIdentity\<close> together with the \<^verbatim>\<open>must\<close> around its call: an error of the
  query becomes a panic, and the index expression \<^verbatim>\<open>res[0]\<close> panics inside the
  function when no row came back.
\<close>

definition isTableHasIdentity ::
  "('db, 'a) env \<Rightarrow> 'db \<Rightarrow> string \<Rightarrow> failure + bool" where
  "isTableHasIdentity E d tableName =
     (case SelectIdentityCount E d tableName of
        Inl err \<Rightarrow> Inl (Panic err)
      | Inr res \<Rightarrow> (case index res 0 of Inl e \<Rightarrow> Inl e | Inr n \<Rightarrow> Inr (n > 0)))"

definition getComputeColumns ::
  "('db, 'a) env \<Rightarrow> 'db \<Rightarrow> string \<Rightarrow> string + string list" where
  "getComputeColumns E d tableName = SelectComputed E d tableName"

text \<open>The \<^verbatim>\<open>switch ext\<close> that fills \<^verbatim>\<open>allRecords\<close>.\<close>

definition readRecords :: "('db, 'a) env \<Rightarrow> Format \<Rightarrow> string \<Rightarrow> failure + 'a row list" where
  "readRecords E ext filePath =
     (case ext of
        Json \<Rightarrow> must (ReadJson E filePath)
      | Csv \<Rightarrow> (case must (OpenCsv E filePath) of Inl e \<Rightarrow> Inl e | Inr rs \<Rightarrow> readCsv rs))"

text \<open>
  The loop \<^verbatim>\<open>for _, records := range allRecords\<close>. \<^verbatim>\<open>fmt.Println("query ", query)\<close>
  puts a space between its operands.
\<close>

fun rowsLoop ::
  "('db, 'a) env \<Rightarrow> string \<Rightarrow> Format \<Rightarrow> (string \<rightharpoonup> ColumnSchema) \<Rightarrow> bool \<Rightarrow> string list \<Rightarrow>
   'a row list \<Rightarrow> 'db world \<Rightarrow> outcome \<times> 'db world" where
  "rowsLoop E tableName ext schema isTableIdentity computeColumns [] w = (Done, w)"
| "rowsLoop E tableName ext schema isTableIdentity computeColumns (records # rest) w =
     (let w1 = w\<lparr>ranged := ranged w + 1\<rparr> in
      case project ext computeColumns records (rangeOrder E (ranged w) schema) ([], []) of
        Inl e \<Rightarrow> (Failed e, w1)
      | Inr (columns, values) \<Rightarrow>
          if length columns = 0 then
            (Returned, w1\<lparr>stdout := stdout w1 @ [''No data to insert.'']\<rparr>)
          else
            (let query = buildQuery tableName columns isTableIdentity;
                 w2 = w1\<lparr>stdout := stdout w1 @ [''query  '' @ query]\<rparr>
             in case must (Exec E (db w2) query values) of
                  Inl e \<Rightarrow> (Failed e, w2)
                | Inr d \<Rightarrow>
                    rowsLoop E tableName ext schema isTableIdentity computeColumns rest
                      (w2\<lparr>db := d\<rparr>)))"

text \<open>The body of the loop over the files, up to the loop over the rows.\<close>

definition loadFile ::
  "('db, 'a) env \<Rightarrow> string \<Rightarrow> string \<Rightarrow> 'db \<Rightarrow>
   failure + (string \<times> Format \<times> (string \<rightharpoonup> ColumnSchema) \<times> bool \<times> string list \<times> 'a row list)" where
  "loadFile E dirPath fileName d =
     (let filePath = dirPath @ ''/'' @ fileName in
      case tableNameAndExt fileName of
        Inl e \<Rightarrow> Inl e
      | Inr (tableName, ext) \<Rightarrow>
      (case must (getTableSchema E d tableName) of
        Inl e \<Rightarrow> Inl e
      | Inr schema \<Rightarrow>
      (case isTableHasIdentity E d tableName of
        Inl e \<Rightarrow> Inl e
      | Inr isTableIdentity \<Rightarrow>
      (case must (getComputeColumns E d tableName) of
        Inl e \<Rightarrow> Inl e
      | Inr computeColumns \<Rightarrow>
      (case readRecords E ext filePath of
        Inl e \<Rightarrow> Inl e
      | Inr allRecords \<Rightarrow>
          Inr (tableName, ext, schema, isTableIdentity, computeColumns, allRecords))))))"

text \<open>The loop \<^verbatim>\<open>for _, file := range files\<close>.\<close>

fun filesLoop ::
  "('db, 'a) env \<Rightarrow> string \<Rightarrow> string list \<Rightarrow> 'db world \<Rightarrow> outcome \<times> 'db world" where
  "filesLoop E dirPath [] w = (Done, w)"
| "filesLoop E dirPath (fileName # rest) w =
     (case loadFile E dirPath fileName (db w) of
        Inl e \<Rightarrow> (Failed e, w)
      | Inr (tableName, ext, schema, isTableIdentity, computeColumns, allRecords) \<Rightarrow>
          (case rowsLoop E tableName ext schema isTableIdentity computeColumns allRecords w of
             (Done, w') \<Rightarrow> filesLoop E dirPath rest w'
           | (Returned, w') \<Rightarrow> (Returned, w')
           | (Failed e, w') \<Rightarrow> (Failed e, w')))"

text \<open>\<^verbatim>\<open>main\<close>, from the listing of the directory on.\<close>

definition main :: "('db, 'a) env \<Rightarrow> string \<Rightarrow> 'db world \<Rightarrow> outcome \<times> 'db world" where
  "main E dirPath w =
     (case must (ReadDir E dirPath) of
        Inl e \<Rightarrow> (Failed e, w)
      | Inr files \<Rightarrow>
          (case filesLoop E dirPath files w of
             (Done, w') \<Rightarrow> (Done, w'\<lparr>stdout := stdout w' @ [''Upload done'']\<rparr>)
           | (Returned, w') \<Rightarrow> (Returned, w')
           | (Failed e, w') \<Rightarrow> (Failed e, w')))"

subsection \<open>Example tables and an example environment\<close>

text \<open>
  Columns as \<^verbatim>\<open>INFORMATION_SCHEMA.COLUMNS\<close> describes them: a key that must be given, a
  text that may be null, a row version that the server fills in, and a total that the
  server computes.
\<close>

definition idColumn :: ColumnSchema where
  "idColumn = \<lparr>ColumnName = ''id'', IsNullable = ''NO'', ColumnDefault = None, DataType = ''int''\<rparr>"

definition nameColumn :: ColumnSchema where
  "nameColumn =
     \<lparr>ColumnName = ''name'', IsNullable = ''YES'', ColumnDefault = None, DataType = ''varchar''\<rparr>"

definition tsColumn :: ColumnSchema where
  "tsColumn =
     \<lparr>ColumnName = ''ts'', IsNullable = ''NO'', ColumnDefault = None, DataType = ''timestamp''\<rparr>"

definition totalColumn :: ColumnSchema where
  "totalColumn =
     \<lparr>ColumnName = ''total'', IsNullable = ''NO'', ColumnDefault = None, DataType = ''int''\<rparr>"

text \<open>
  An environment whose directory holds the given files, whose tables all have the given
  columns and no identity or computed column, whose JSON files all hold the given
  records, and whose database is the list of the statements executed so far. A schema is
  ranged over in the order of the columns, each key once.
\<close>

definition exampleEnv ::
  "string list \<Rightarrow> ColumnSchema list \<Rightarrow> 'a row list \<Rightarrow> ((string \<times> 'a val list) list, 'a) env" where
  "exampleEnv files cols rows =
     \<lparr>ReadDir = (\<lambda>dirPath. Inr files),
      SelectColumns = (\<lambda>d tableName. Inr cols),
      SelectIdentityCount = (\<lambda>d tableName. Inr [0]),
      SelectComputed = (\<lambda>d tableName. Inr []),
      Exec = (\<lambda>d query args. Inr (d @ [(query, args)])),
      ReadJson = (\<lambda>filePath. Inr rows),
      OpenCsv = (\<lambda>filePath. Inl ''open: no such file''),
      rangeOrder = (\<lambda>n schema.
        concat (map (\<lambda>col. case schema col of None \<Rightarrow> [] | Some s \<Rightarrow> [(col, s)])
          (remdups (map ColumnName cols))))\<rparr>"

definition startWorld :: "(string \<times> 'a val list) list world" where
  "startWorld = \<lparr>db = [], stdout = [], ranged = 0\<rparr>"

section \<open>Properties\<close>

subsection \<open>Splitting and joining\<close>

lemma cut_None: "cut sep s = None \<longleftrightarrow> sep \<notin> set s"
  by (induction s) (auto split: option.splits)

lemma cut_SomeD: "cut sep s = Some (a, b) \<Longrightarrow> s = a @ sep # b \<and> sep \<notin> set a"
  by (induction s arbitrary: a) (auto split: if_splits option.splits)

lemma cut_SomeI: "sep \<notin> set a \<Longrightarrow> cut sep (a @ sep # b) = Some (a, b)"
  by (induction a) auto

lemma SplitN2: "strings_SplitN s sep 2 = (case cut sep s of None \<Rightarrow> [s] | Some (a, b) \<Rightarrow> [a, b])"
  by (simp add: numeral_2_eq_2 split: option.splits)
lemma Split_nonempty: "strings_Split s sep \<noteq> []"
  by (induction s) (simp_all split: list.splits)

lemma Split_sep: "strings_Split (sep # xs) sep = [] # strings_Split xs sep"
  by simp

lemma Split_Cons:
  "x \<noteq> sep \<Longrightarrow> strings_Split (x # xs) sep =
     (x # hd (strings_Split xs sep)) # tl (strings_Split xs sep)"
  using Split_nonempty[of xs sep] by (cases "strings_Split xs sep") simp_all

lemmas Split_step = Split_sep Split_Cons Split_Cons[OF not_sym]

lemma Split_no_sep: "sep \<notin> set s \<Longrightarrow> strings_Split s sep = [s]"
  by (induction s) (simp_all add: Split_step del: strings_Split.simps(2))

lemma Split_append: "strings_Split (a @ sep # b) sep = strings_Split a sep @ strings_Split b sep"
proof (induction a)
  case Nil
  show ?case by simp
next
  case (Cons x a)
  show ?case
  proof (cases "x = sep")
    case True
    then show ?thesis using Cons by simp
  next
    case False
    then show ?thesis using Cons Split_nonempty[of a sep]
      by (simp add: Split_step del: strings_Split.simps(2))
  qed
qed

lemma length_Split: "length (strings_Split s sep) = Suc (length (filter (\<lambda>c. c = sep) s))"
proof (induction s)
  case Nil
  show ?case by simp
next
  case (Cons x s)
  then show ?case using Split_nonempty[of s sep]
    by (cases "x = sep") (simp_all add: Split_step del: strings_Split.simps(2))
qed

lemma Join_empty: "strings_Join es [] = concat es"
  by (induction es "[]::string" rule: strings_Join.induct) simp_all

subsection \<open>File names\<close>

text \<open>
  The function literal in closed form: the name must hold an underscore, the text after
  the first one must hold a dot, and then the segments between dots but the last,
  concatenated, are the table name and the last segment names the format.
\<close>

lemma tableNameAndExt_eq:
  "tableNameAndExt fn =
     (case cut (CHR ''_'') fn of
        None \<Rightarrow> Inl IndexOutOfRange
      | Some (pre, rest) \<Rightarrow>
          (let segs = strings_Split rest (CHR ''.'') in
           if length segs < 2 then Inl IndexOutOfRange
           else (case getFileFormat (last segs) of
                   Inl e \<Rightarrow> Inl e
                 | Inr ext \<Rightarrow> Inr (concat (butlast segs), ext))))"
proof (cases "cut (CHR ''_'') fn")
  case None
  then show ?thesis by (simp add: tableNameAndExt_def SplitN2 index_def)
next
  case (Some p)
  obtain pre rest where p: "p = (pre, rest)" by (cases p)
  define segs where "segs = strings_Split rest (CHR ''.'')"
  have ne: "segs \<noteq> []" by (simp add: segs_def Split_nonempty)
  have rest: "index (strings_SplitN fn (CHR ''_'') 2) 1 = Inr rest"
    using Some p by (simp add: SplitN2 index_def)
  have pos: "length segs > 0" using ne by simp
  then consider "length segs = 1" | "length segs = 2" | "length segs > 2"
    by linarith
  then show ?thesis
  proof cases
    case 1
    then show ?thesis using Some p rest
      by (simp add: tableNameAndExt_def index_def segs_def[symmetric])
  next
    case 2
    then obtain a b where ab: "segs = [a, b]"
      by (cases segs; cases "tl segs") auto
    show ?thesis using Some p rest ab
      by (simp add: tableNameAndExt_def index_def segs_def[symmetric] split: sum.splits)
  next
    case 3
    have "take (length segs - 1) segs = butlast segs" by (simp add: butlast_conv_take)
    moreover have "segs ! (length segs - 1) = last segs" using ne by (simp add: last_conv_nth)
    moreover have "length segs - 1 < length segs" using pos by simp
    ultimately show ?thesis using Some p rest 3
      by (simp add: tableNameAndExt_def index_def segs_def[symmetric] Join_empty Let_def
          split: sum.splits)
  qed
qed

lemma Split_last:
  assumes "CHR ''.'' \<notin> set strFormat"
  shows "strings_Split (name @ CHR ''.'' # strFormat) (CHR ''.'') =
           strings_Split name (CHR ''.'') @ [strFormat]"
  using assms by (simp add: Split_append Split_no_sep)

lemma length_Split_1: "length (strings_Split s sep) < 2 \<longleftrightarrow> sep \<notin> set s"
proof -
  have "length (filter (\<lambda>c. c = sep) s) = 0 \<longleftrightarrow> sep \<notin> set s"
    by (auto simp: filter_empty_conv)
  then show ?thesis by (simp add: length_Split less_Suc_eq numeral_2_eq_2)
qed

lemma getFileFormat_Inl:
  "getFileFormat s = Inl e \<longleftrightarrow> e = Panic ''incorrect format'' \<and> s \<noteq> ''json'' \<and> s \<noteq> ''csv''"
  by (auto simp: getFileFormat_def)

lemma tableNameAndExt_cut:
  assumes "cut (CHR ''_'') fn = Some (pre, rest)"
  shows "tableNameAndExt fn =
           (if CHR ''.'' \<notin> set rest then Inl IndexOutOfRange
            else (case getFileFormat (last (strings_Split rest (CHR ''.''))) of
                    Inl e \<Rightarrow> Inl e
                  | Inr ext \<Rightarrow> Inr (concat (butlast (strings_Split rest (CHR ''.''))), ext)))"
  using assms by (simp add: tableNameAndExt_eq Let_def length_Split_1)

lemma fileName_panics_parts:
  "(tableNameAndExt fn = Inl IndexOutOfRange) =
     (CHR ''_'' \<notin> set fn \<or>
      (\<exists>pre rest. fn = pre @ CHR ''_'' # rest \<and> CHR ''_'' \<notin> set pre \<and>
         CHR ''.'' \<notin> set rest))"
  "(tableNameAndExt fn = Inl (Panic ''incorrect format'')) =
     (\<exists>pre name strFormat.
        fn = pre @ CHR ''_'' # name @ CHR ''.'' # strFormat \<and> CHR ''_'' \<notin> set pre \<and>
        CHR ''.'' \<notin> set strFormat \<and> strFormat \<noteq> ''json'' \<and> strFormat \<noteq> ''csv'')"
proof -
  show "(tableNameAndExt fn = Inl IndexOutOfRange) =
     (CHR ''_'' \<notin> set fn \<or>
      (\<exists>pre rest. fn = pre @ CHR ''_'' # rest \<and> CHR ''_'' \<notin> set pre \<and>
         CHR ''.'' \<notin> set rest))"
    (is "?L = ?R")
  proof (cases "cut (CHR ''_'') fn")
    case None
    moreover from None have "CHR ''_'' \<notin> set fn" by (simp add: cut_None)
    ultimately show ?thesis by (simp add: tableNameAndExt_eq)
  next
    case (Some p)
    obtain pre rest where p: "p = (pre, rest)" by (cases p)
    have c: "cut (CHR ''_'') fn = Some (pre, rest)" using Some p by simp
    have fn: "fn = pre @ CHR ''_'' # rest" "CHR ''_'' \<notin> set pre"
      using c cut_SomeD by blast+
    have in_fn: "CHR ''_'' \<in> set fn" using fn(1) by simp
    have uniq: "rest' = rest"
      if "fn = pre' @ CHR ''_'' # rest'" "CHR ''_'' \<notin> set pre'" for pre' rest'
      using that cut_SomeI[of "CHR ''_''" pre' rest'] c by simp
    have "getFileFormat s \<noteq> Inl IndexOutOfRange" for s
      by (simp add: getFileFormat_def)
    then have "?L = (CHR ''.'' \<notin> set rest)"
      by (auto simp: tableNameAndExt_cut[OF c] split: sum.splits)
    also have "\<dots> = ?R"
      using fn uniq in_fn by blast
    finally show ?thesis .
  qed
  show "(tableNameAndExt fn = Inl (Panic ''incorrect format'')) =
     (\<exists>pre name strFormat.
        fn = pre @ CHR ''_'' # name @ CHR ''.'' # strFormat \<and> CHR ''_'' \<notin> set pre \<and>
        CHR ''.'' \<notin> set strFormat \<and> strFormat \<noteq> ''json'' \<and> strFormat \<noteq> ''csv'')"
    (is "?L = ?R")
  proof
    assume L: ?L
    have "cut (CHR ''_'') fn \<noteq> None"
      using L by (auto simp: tableNameAndExt_eq split: option.splits)
    then obtain pre rest where c: "cut (CHR ''_'') fn = Some (pre, rest)"
      by (cases "cut (CHR ''_'') fn") auto
    have fn: "fn = pre @ CHR ''_'' # rest" "CHR ''_'' \<notin> set pre"
      using c cut_SomeD by blast+
    have dot: "CHR ''.'' \<in> set rest"
      using L by (simp add: tableNameAndExt_cut[OF c] split: if_splits)
    then obtain name strFormat where r: "rest = name @ CHR ''.'' # strFormat"
      "CHR ''.'' \<notin> set strFormat"
      using split_list_last[of "CHR ''.''" rest] by blast
    have "last (strings_Split rest (CHR ''.'')) = strFormat"
      using r by (simp add: Split_last)
    moreover have "\<exists>e. getFileFormat (last (strings_Split rest (CHR ''.''))) = Inl e"
      using L dot by (simp add: tableNameAndExt_cut[OF c] split: sum.splits)
    ultimately have "strFormat \<noteq> ''json'' \<and> strFormat \<noteq> ''csv''"
      by (simp add: getFileFormat_Inl)
    then show ?R using fn r by blast
  next
    assume ?R
    then obtain pre name strFormat where
      fn: "fn = pre @ CHR ''_'' # name @ CHR ''.'' # strFormat" "CHR ''_'' \<notin> set pre" and
      sf: "CHR ''.'' \<notin> set strFormat" "strFormat \<noteq> ''json''" "strFormat \<noteq> ''csv''"
      by blast
    have c: "cut (CHR ''_'') fn = Some (pre, name @ CHR ''.'' # strFormat)"
      using fn cut_SomeI by simp
    have l: "last (strings_Split (name @ CHR ''.'' # strFormat) (CHR ''.'')) = strFormat"
      using sf by (simp add: Split_last)
    show ?L using l sf
      by (simp add: tableNameAndExt_cut[OF c] getFileFormat_def)
  qed
qed

text \<open>
  C10. A file name with no underscore, and one with no dot after its first underscore,
  make the index expression panic, and no other name does; \<^verbatim>\<open>panic("incorrect format")\<close>
  is reached exactly when there is a dot after the first underscore and the text after
  the last dot is neither \<^verbatim>\<open>json\<close> nor \<^verbatim>\<open>csv\<close>.
\<close>

theorem fileName_panics:
  "((tableNameAndExt fn = Inl IndexOutOfRange) =
      (CHR ''_'' \<notin> set fn \<or>
       (\<exists>pre rest. fn = pre @ CHR ''_'' # rest \<and> CHR ''_'' \<notin> set pre \<and>
          CHR ''.'' \<notin> set rest))) \<and>
   ((tableNameAndExt fn = Inl (Panic ''incorrect format'')) =
      (\<exists>pre name strFormat.
         fn = pre @ CHR ''_'' # name @ CHR ''.'' # strFormat \<and> CHR ''_'' \<notin> set pre \<and>
         CHR ''.'' \<notin> set strFormat \<and> strFormat \<noteq> ''json'' \<and> strFormat \<noteq> ''csv''))"
  using fileName_panics_parts[of fn] by (rule conjI)

theorem fileName_panics_witness:
  "tableNameAndExt ''customers.json'' = Inl IndexOutOfRange \<and>
   tableNameAndExt ''001_customers'' = Inl IndexOutOfRange \<and>
   tableNameAndExt ''001_customers.txt'' = Inl (Panic ''incorrect format'')"
proof -
  have "tableNameAndExt ''customers.json'' = Inl IndexOutOfRange"
    using fileName_panics[of "''customers.json''"] by simp
  moreover have "tableNameAndExt ''001_customers'' = Inl IndexOutOfRange"
    using fileName_panics[of "''001_customers''"] by (simp add: tableNameAndExt_eq Let_def)
  moreover have "tableNameAndExt ''001_customers.txt'' = Inl (Panic ''incorrect format'')"
    using fileName_panics[of "''001_customers.txt''"]
    by (simp add: tableNameAndExt_eq Let_def getFileFormat_def)
  ultimately show ?thesis by simp
qed

text \<open>
  C5 as stated fails at its own example: only the first underscore splits, so the
  underscore of \<^verbatim>\<open>customer_orders\<close> stays in the table name.
\<close>

theorem fileName_table_counterexample:
  "tableNameAndExt ''001_customer_orders.json'' \<noteq> Inr (''customerorders'', Json)"
  by (simp add: tableNameAndExt_eq getFileFormat_def)

text \<open>
  C5, as amended. The name is split at its first underscore and the rest at its dots;
  when more than one segment remains, the segments but the last, joined with no
  separator, are the table name, and the last segment is the format. For
  \<^verbatim>\<open>001_customer_orders.json\<close> the table is \<^verbatim>\<open>customer_orders\<close> and the format JSON;
  it is a dot inside the name that disappears: \<^verbatim>\<open>001_customer.orders.json\<close> gives the
  table \<^verbatim>\<open>customerorders\<close>.
\<close>

theorem fileName_table_and_format:
  "(fn = pre @ CHR ''_'' # rest \<and> CHR ''_'' \<notin> set pre \<and>
    nameAndExt = strings_Split rest (CHR ''.'') \<and> length nameAndExt > 1 \<and>
    getFileFormat (last nameAndExt) = Inr ext \<longrightarrow>
    tableNameAndExt fn = Inr (strings_Join (butlast nameAndExt) [], ext)) \<and>
   tableNameAndExt ''001_customer_orders.json'' = Inr (''customer_orders'', Json) \<and>
   tableNameAndExt ''001_customer.orders.json'' = Inr (''customerorders'', Json)"
proof -
  have "tableNameAndExt fn = Inr (strings_Join (butlast nameAndExt) [], ext)"
    if fn: "fn = pre @ CHR ''_'' # rest" "CHR ''_'' \<notin> set pre"
      and segs: "nameAndExt = strings_Split rest (CHR ''.'')" "length nameAndExt > 1"
      and ext: "getFileFormat (last nameAndExt) = Inr ext"
  proof -
    have c: "cut (CHR ''_'') fn = Some (pre, rest)"
      using fn cut_SomeI by simp
    have "\<not> length (strings_Split rest (CHR ''.'')) < 2"
      using segs by simp
    then show ?thesis using c segs(1) ext
      by (simp add: tableNameAndExt_eq Let_def Join_empty)
  qed
  moreover have "tableNameAndExt ''001_customer_orders.json'' = Inr (''customer_orders'', Json)"
    by (simp add: tableNameAndExt_eq Let_def getFileFormat_def)
  moreover have "tableNameAndExt ''001_customer.orders.json'' = Inr (''customerorders'', Json)"
    by (simp add: tableNameAndExt_eq Let_def getFileFormat_def)
  ultimately show ?thesis by blast
qed

theorem fileName_table_and_format_witness:
  "tableNameAndExt ''2024_sales.eu.west.csv'' = Inr (''saleseuwest'', Csv)"
proof -
  have 1: "''2024_sales.eu.west.csv'' = ''2024'' @ CHR ''_'' # ''sales.eu.west.csv''"
    "CHR ''_'' \<notin> set ''2024''"
    by simp_all
  have 2: "[''sales'', ''eu'', ''west'', ''csv''] = strings_Split ''sales.eu.west.csv'' (CHR ''.'')"
    "length [''sales'', ''eu'', ''west'', ''csv''] > 1"
    by simp_all
  have 3: "getFileFormat (last [''sales'', ''eu'', ''west'', ''csv'']) = Inr Csv"
    by (simp add: getFileFormat_def)
  have "tableNameAndExt ''2024_sales.eu.west.csv'' =
          Inr (strings_Join (butlast [''sales'', ''eu'', ''west'', ''csv'']) [], Csv)"
    by (rule conjunct1[OF fileName_table_and_format[where pre = "''2024''" and
            rest = "''sales.eu.west.csv''"], THEN mp])
      (intro conjI 1 2 3)
  then show ?thesis by simp
qed

subsection \<open>Projection\<close>

lemma project_Cons:
  "project ext cc r ((col, s) # kvs) (cs, vs) =
     (case decide ext cc r col s of
        Skip \<Rightarrow> project ext cc r kvs (cs, vs)
      | Reject m \<Rightarrow> Inl (Fatal m)
      | Keep v \<Rightarrow> project ext cc r kvs (cs @ [''['' @ col @ '']''], vs @ [v]))"
  by (simp add: decide_def split: option.splits)

lemma project_acc:
  "project ext cc r kvs (cs, vs) =
     (case project ext cc r kvs ([], []) of
        Inl e \<Rightarrow> Inl e
      | Inr (cs', vs') \<Rightarrow> Inr (cs @ cs', vs @ vs'))"
proof (induction kvs arbitrary: cs vs)
  case Nil
  show ?case by simp
next
  case (Cons kv kvs)
  obtain col s where kv: "kv = (col, s)" by (cases kv)
  show ?case
  proof (cases "decide ext cc r col s")
    case Skip
    then show ?thesis using Cons.IH[of cs vs] kv by (simp only: project_Cons decision.case)
  next
    case (Reject m)
    then show ?thesis using kv by (simp only: project_Cons decision.case sum.case)
  next
    case (Keep v)
    have 1: "project ext cc r (kv # kvs) (cs, vs) =
             project ext cc r kvs (cs @ [''['' @ col @ '']''], vs @ [v])"
      using Keep kv by (simp only: project_Cons decision.case)
    have 2: "project ext cc r (kv # kvs) ([], []) =
             project ext cc r kvs ([''['' @ col @ '']''], [v])"
      using Keep kv by (simp only: project_Cons decision.case append_Nil)
    show ?thesis
      unfolding 1 2
      using Cons.IH[of "cs @ [''['' @ col @ '']'']" "vs @ [v]"]
        Cons.IH[of "[''['' @ col @ '']'']" "[v]"]
      by (cases "project ext cc r kvs ([], [])") auto
  qed
qed

lemma project_append:
  "project ext cc r (k1 @ k2) acc =
     (case project ext cc r k1 acc of
        Inl e \<Rightarrow> Inl e
      | Inr acc' \<Rightarrow> project ext cc r k2 acc')"
proof (induction k1 arbitrary: acc)
  case Nil
  show ?case by (cases acc) simp
next
  case (Cons kv k1)
  obtain col s where kv: "kv = (col, s)" by (cases kv)
  obtain cs vs where acc: "acc = (cs, vs)" by (cases acc)
  show ?case unfolding kv acc append_Cons project_Cons
    using Cons.IH by (cases "decide ext cc r col s") simp_all
qed

lemma project_no_Reject:
  assumes "\<forall>(col, s) \<in> set kvs. \<forall>m. decide ext cc r col s \<noteq> Reject m"
  shows "\<exists>res. project ext cc r kvs acc = Inr res"
  using assms
proof (induction kvs arbitrary: acc)
  case Nil
  then show ?case by (cases acc) simp
next
  case (Cons x kvs)
  obtain col s where x: "x = (col, s)" by (cases x)
  obtain cs vs where acc: "acc = (cs, vs)" by (cases acc)
  have IH: "\<exists>res. project ext cc r kvs acc' = Inr res" for acc'
    using Cons by simp
  have "\<forall>m. decide ext cc r col s \<noteq> Reject m" using Cons.prems x by simp
  then show ?case unfolding x acc project_Cons
    using IH by (cases "decide ext cc r col s") simp_all
qed

lemma project_consistent:
  assumes "project ext cc r kvs ([], []) = Inr (columns, values)"
  shows "\<exists>cols. columns = map (\<lambda>col. ''['' @ col @ '']'') cols \<and> map r cols = map Some values \<and>
           cols = map fst (filter (\<lambda>(col, s). \<exists>v. decide ext cc r col s = Keep v) kvs)"
  using assms
proof (induction kvs arbitrary: columns "values")
  case Nil
  then show ?case by simp
next
  case (Cons x kvs)
  obtain col s where x: "x = (col, s)" by (cases x)
  show ?case
  proof (cases "decide ext cc r col s")
    case Skip
    then have "project ext cc r kvs ([], []) = Inr (columns, values)"
      using Cons.prems unfolding x project_Cons by simp
    from Cons.IH[OF this] show ?thesis using Skip x by simp
  next
    case (Reject m)
    then show ?thesis using Cons.prems unfolding x project_Cons by simp
  next
    case (Keep v)
    then have p: "project ext cc r kvs ([''['' @ col @ '']''], [v]) = Inr (columns, values)"
      using Cons.prems unfolding x project_Cons by simp
    then obtain c' v' where t: "project ext cc r kvs ([], []) = Inr (c', v')"
      and cv: "columns = (''['' @ col @ '']'') # c'" "values = v # v'"
      by (subst (asm) project_acc) (auto split: sum.splits)
    have rv: "r col = Some v" using Keep by (auto simp: decide_def split: option.splits if_splits)
    from Cons.IH[OF t] show ?thesis using Keep x cv rv by auto
  qed
qed

lemma decide_Reject_msg:
  assumes "decide ext cc r col s = Reject m"
  shows "\<exists>src. (src = ''json'' \<or> src = ''csv'') \<and> m = ''required field '' @ col @ '' missing from '' @ src"
  using assms by (auto simp: decide_def split: option.splits if_splits)

lemma project_Reject_msg:
  assumes "(col, s) \<in> set kvs" "decide ext cc r col s = Reject m"
  shows "\<exists>c src. c \<in> fst ` set kvs \<and> (src = ''json'' \<or> src = ''csv'') \<and>
           project ext cc r kvs acc = Inl (Fatal (''required field '' @ c @ '' missing from '' @ src))"
  using assms(1)
proof (induction kvs arbitrary: acc)
  case Nil
  then show ?case by simp
next
  case (Cons x kvs)
  obtain col' s' where x: "x = (col', s')" by (cases x)
  obtain cs vs where acc: "acc = (cs, vs)" by (cases acc)
  let ?Q = "\<lambda>kvs acc. \<exists>c src. c \<in> fst ` set kvs \<and> (src = ''json'' \<or> src = ''csv'') \<and>
           project ext cc r kvs acc = Inl (Fatal (''required field '' @ c @ '' missing from '' @ src))"
  have up: "?Q (x # kvs) acc" if "?Q kvs acc'" "project ext cc r (x # kvs) acc = project ext cc r kvs acc'"
    for acc'
    using that by auto
  show ?case
  proof (cases "decide ext cc r col' s'")
    case (Reject m')
    from decide_Reject_msg[OF this] obtain src where
      "src = ''json'' \<or> src = ''csv''" "m' = ''required field '' @ col' @ '' missing from '' @ src"
      by blast
    then show ?thesis unfolding x acc project_Cons using Reject
      by (intro exI[of _ col'] exI[of _ src]) simp
  next
    case Skip
    then have "(col, s) \<in> set kvs" using Cons.prems x assms(2) by auto
    then have "?Q kvs acc" using Cons.IH by blast
    moreover have "project ext cc r (x # kvs) acc = project ext cc r kvs acc"
      unfolding x acc project_Cons using Skip by simp
    ultimately show ?thesis by (rule up)
  next
    case (Keep v)
    then have "(col, s) \<in> set kvs" using Cons.prems x assms(2) by auto
    then have "?Q kvs (cs @ [''['' @ col' @ '']''], vs @ [v])" using Cons.IH by blast
    moreover have "project ext cc r (x # kvs) acc =
        project ext cc r kvs (cs @ [''['' @ col' @ '']''], vs @ [v])"
      unfolding x acc project_Cons using Keep by simp
    ultimately show ?thesis by (rule up)
  qed
qed

text \<open>
  C1 does not hold of the program. The test for timestamp and computed columns stands
  inside the branch for a column that the record holds, so a record that lacks such a
  column, when the column is not nullable and has no default, ends the program with
  \<^verbatim>\<open>required field ... missing from json\<close>; the same column with a value in the
  record is skipped.
\<close>

theorem absent_server_column_fatal:
  "project Json [] (Map.empty :: unit row) [(''ts'', tsColumn)] ([], []) =
     Inl (Fatal ''required field ts missing from json'') \<and>
   project Json [''total''] (Map.empty :: unit row) [(''total'', totalColumn)] ([], []) =
     Inl (Fatal ''required field total missing from json'') \<and>
   project Json [] [''ts'' \<mapsto> (StrVal ''AAAAAAAAB9E='' :: unit val)] [(''ts'', tsColumn)] ([], []) =
     Inr ([], [])"
  by (simp add: tsColumn_def totalColumn_def notNullNoDefault_def)


text \<open>
  C3. A column that is nullable or has a default, and that the row lacks or, in a CSV
  file, holds the string \<^verbatim>\<open>NULL\<close> for, changes nothing: the projection, failure or
  lists, is the one of the schema without that column, wherever the column comes in the
  order of the range statement; and as the keys of a map are distinct, the bracketed
  name of the column is not among the columns of the result.
\<close>

theorem nullable_or_default_omitted:
  assumes "IsNullable colSchema = ''YES'' \<or> ColumnDefault colSchema \<noteq> None"
    and "records col = None \<or> (ext = Csv \<and> records col = Some (StrVal ''NULL''))"
  shows "project ext cc records (before @ (col, colSchema) # after) acc =
           project ext cc records (before @ after) acc \<and>
         (distinct (map fst (before @ (col, colSchema) # after)) \<longrightarrow>
          (\<forall>columns values.
             project ext cc records (before @ (col, colSchema) # after) ([], []) =
               Inr (columns, values) \<longrightarrow>
             ''['' @ col @ '']'' \<notin> set columns))"
proof -
  have skip: "decide ext cc records col colSchema = Skip"
    using assms by (auto simp: decide_def notNullNoDefault_def)
  have step: "project ext cc records ((col, colSchema) # after) a =
              project ext cc records after a" for a
    using skip by (cases a) (simp add: project_Cons del: project.simps)
  have eq: "project ext cc records (before @ (col, colSchema) # after) acc =
            project ext cc records (before @ after) acc"
    by (cases "project ext cc records before acc")
      (simp_all add: project_append[of _ _ _ before] step del: project.simps)
  have notin: "''['' @ col @ '']'' \<notin> set columns"
    if d: "distinct (map fst (before @ (col, colSchema) # after))"
      and p: "project ext cc records (before @ (col, colSchema) # after) ([], []) =
                Inr (columns, values)"
    for columns "values"
  proof
    define kvs where "kvs = before @ (col, colSchema) # after"
    define K where "K = (\<lambda>(c, s). \<exists>v. decide ext cc records c s = Keep v)"
    assume "''['' @ col @ '']'' \<in> set columns"
    moreover from project_consistent[OF p] have
      "columns = map (\<lambda>c. ''['' @ c @ '']'') (map fst (filter K kvs))"
      unfolding kvs_def K_def by blast
    ultimately have "''['' @ col @ '']'' \<in> (\<lambda>kv. ''['' @ fst kv @ '']'') ` set (filter K kvs)"
      by (simp add: image_image)
    then obtain kv where kv: "kv \<in> set kvs" "K kv" "''['' @ col @ '']'' = ''['' @ fst kv @ '']''"
      by auto
    obtain c s where cs: "kv = (c, s)" by (cases kv)
    have c: "c = col" using kv(3) cs by simp
    have "(col, colSchema) \<in> set kvs" by (simp add: kvs_def)
    moreover have "(col, s) \<in> set kvs" using kv(1) cs c by simp
    moreover have "distinct (map fst kvs)" using d by (simp add: kvs_def)
    ultimately have "s = colSchema" by (meson eq_key_imp_eq_value)
    then show False using kv(2) cs c skip by (simp add: K_def)
  qed
  show ?thesis using eq notin by blast
qed

theorem nullable_or_default_omitted_witness:
  "project Csv [] [''id'' \<mapsto> IntVal 7, ''name'' \<mapsto> (StrVal ''NULL'' :: unit val)]
     ([(''id'', idColumn)] @ (''name'', nameColumn) # []) ([], []) =
   project Csv [] [''id'' \<mapsto> IntVal 7, ''name'' \<mapsto> StrVal ''NULL'']
     ([(''id'', idColumn)] @ []) ([], []) \<and>
   ''[name]'' \<notin> set (fst (projr (project Csv [] [''id'' \<mapsto> IntVal 7, ''name'' \<mapsto> (StrVal ''NULL'' :: unit val)]
     ([(''id'', idColumn)] @ (''name'', nameColumn) # []) ([], []))))"
proof -
  have 1: "IsNullable nameColumn = ''YES'' \<or> ColumnDefault nameColumn \<noteq> None"
    by (simp add: nameColumn_def)
  have 2: "[''id'' \<mapsto> IntVal 7, ''name'' \<mapsto> (StrVal ''NULL'' :: unit val)] ''name'' = None \<or>
           (Csv = Csv \<and> [''id'' \<mapsto> IntVal 7, ''name'' \<mapsto> (StrVal ''NULL'' :: unit val)] ''name'' =
              Some (StrVal ''NULL''))"
    by simp
  have 3: "distinct (map fst ([(''id'', idColumn)] @ (''name'', nameColumn) # []))"
    by simp
  have 4: "project Csv [] [''id'' \<mapsto> IntVal 7, ''name'' \<mapsto> (StrVal ''NULL'' :: unit val)]
     ([(''id'', idColumn)] @ (''name'', nameColumn) # []) ([], []) = Inr ([''[id]''], [IntVal 7])"
    by (simp add: idColumn_def nameColumn_def notNullNoDefault_def)
  from nullable_or_default_omitted[where colSchema = nameColumn and col = "''name''" and
      records = "[''id'' \<mapsto> IntVal 7, ''name'' \<mapsto> (StrVal ''NULL'' :: unit val)]" and
      ext = Csv and cc = "[]" and before = "[(''id'', idColumn)]" and after = "[]" and
      acc = "([], [])", OF 1 2] 3 4
  show ?thesis by simp
qed

subsection \<open>The run\<close>

lemma rowsLoop_append:
  "rowsLoop E t ext schema idn cc (xs @ ys) w =
     (case rowsLoop E t ext schema idn cc xs w of
        (Done, w') \<Rightarrow> rowsLoop E t ext schema idn cc ys w'
      | (Returned, w') \<Rightarrow> (Returned, w')
      | (Failed e, w') \<Rightarrow> (Failed e, w'))"
proof (induction xs arbitrary: w)
  case Nil
  show ?case by simp
next
  case (Cons x xs)
  show ?case
    by (simp add: Cons.IH Let_def split: sum.splits prod.splits)
qed

lemma filesLoop_append:
  "filesLoop E dirPath (xs @ ys) w =
     (case filesLoop E dirPath xs w of
        (Done, w') \<Rightarrow> filesLoop E dirPath ys w'
      | (Returned, w') \<Rightarrow> (Returned, w')
      | (Failed e, w') \<Rightarrow> (Failed e, w'))"
proof (induction xs arbitrary: w)
  case Nil
  show ?case by simp
next
  case (Cons x xs)
  show ?case
    by (simp add: Cons.IH split: sum.splits prod.splits outcome.splits)
qed

lemma main_stops:
  assumes dir: "ReadDir E dirPath = Inr (before @ fileName # after)"
    and before: "filesLoop E dirPath before w0 = (Done, w1)"
    and load: "loadFile E dirPath fileName (db w1) =
                 Inr (tableName, ext, schema, idn, cc, done @ records # todo)"
    and rows: "rowsLoop E tableName ext schema idn cc done w1 = (Done, w2)"
    and row: "rowsLoop E tableName ext schema idn cc [records] w2 = (out, w3)"
    and out: "out \<noteq> Done"
  shows "main E dirPath w0 = (out, w3)"
proof -
  have a: "rowsLoop E tableName ext schema idn cc ([records] @ todo) w2 = (out, w3)"
    unfolding rowsLoop_append[of _ _ _ _ _ _ "[records]"] using row out
    by (cases out) (simp_all del: rowsLoop.simps)
  have b: "rowsLoop E tableName ext schema idn cc (done @ records # todo) w1 = (out, w3)"
    unfolding rowsLoop_append[of _ _ _ _ _ _ "done"] using rows a
    by (simp del: rowsLoop.simps)
  have c: "filesLoop E dirPath (fileName # after) w1 = (out, w3)"
    using load b out by (cases out) simp_all
  have d: "filesLoop E dirPath (before @ fileName # after) w0 = (out, w3)"
    using before c by (simp add: filesLoop_append del: filesLoop.simps)
  show ?thesis using dir d out by (cases out) (simp_all add: main_def must_def)
qed

lemma rowsLoop_project_fails:
  assumes "project ext cc records (rangeOrder E (ranged w) schema) ([], []) = Inl e"
  shows "rowsLoop E tableName ext schema idn cc [records] w = (Failed e, w\<lparr>ranged := ranged w + 1\<rparr>)"
  using assms by simp

lemma rowsLoop_project_empty:
  assumes "project ext cc records (rangeOrder E (ranged w) schema) ([], []) = Inr ([], values)"
  shows "rowsLoop E tableName ext schema idn cc [records] w =
           (Returned, w\<lparr>ranged := ranged w + 1, stdout := stdout w @ [''No data to insert.'']\<rparr>)"
  using assms by simp

text \<open>
  C2, as amended. Let a run reach a row: the files \<open>before\<close> and the rows \<open>done\<close> are
  processed, in the state \<open>w2\<close>. If a column of the schema is not nullable, has no default,
  is neither of type timestamp nor computed, and the row lacks it or, in a CSV file, holds
  the string \<^verbatim>\<open>NULL\<close> for it, then the projection of the row stops at
  \<^verbatim>\<open>log.Fatalf\<close> with a message that some required field is missing, and the whole run
  ends with that failure in the state it had before the row: no statement is executed for
  this row, and the rows \<open>todo\<close> and the files \<open>after\<close> are not looked at.
\<close>

theorem required_column_fatal:
  assumes "ReadDir E dirPath = Inr (before @ fileName # after)"
    and "filesLoop E dirPath before w0 = (Done, w1)"
    and "loadFile E dirPath fileName (db w1) =
           Inr (tableName, ext, schema, idn, cc, done @ records # todo)"
    and "rowsLoop E tableName ext schema idn cc done w1 = (Done, w2)"
    and "(col, colSchema) \<in> set (rangeOrder E (ranged w2) schema)"
    and "IsNullable colSchema \<noteq> ''YES''" and "ColumnDefault colSchema = None"
    and "DataType colSchema \<noteq> ''timestamp''" and "col \<notin> set cc"
    and "records col = None \<or> (ext = Csv \<and> records col = Some (StrVal ''NULL''))"
  shows "\<exists>c src. c \<in> fst ` set (rangeOrder E (ranged w2) schema) \<and>
           (src = ''json'' \<or> src = ''csv'') \<and>
           project ext cc records (rangeOrder E (ranged w2) schema) ([], []) =
             Inl (Fatal (''required field '' @ c @ '' missing from '' @ src)) \<and>
           main E dirPath w0 =
             (Failed (Fatal (''required field '' @ c @ '' missing from '' @ src)),
              w2\<lparr>ranged := ranged w2 + 1\<rparr>)"
proof -
  have "\<exists>m. decide ext cc records col colSchema = Reject m"
    using assms(6-10) by (auto simp: decide_def notNullNoDefault_def)
  then obtain m where "decide ext cc records col colSchema = Reject m" ..
  from project_Reject_msg[OF assms(5) this, of "([], [])"] obtain c src where
    c: "c \<in> fst ` set (rangeOrder E (ranged w2) schema)" "src = ''json'' \<or> src = ''csv''" and
    p: "project ext cc records (rangeOrder E (ranged w2) schema) ([], []) =
         Inl (Fatal (''required field '' @ c @ '' missing from '' @ src))"
    by blast
  have "main E dirPath w0 =
          (Failed (Fatal (''required field '' @ c @ '' missing from '' @ src)),
           w2\<lparr>ranged := ranged w2 + 1\<rparr>)"
    by (rule main_stops[OF assms(1-4) rowsLoop_project_fails[OF p]]) simp
  then show ?thesis using c p by blast
qed

lemma loadFile_example:
  "loadFile (exampleEnv files cols rows) dirPath ''001_t.json'' d =
     Inr (''t'', Json, fold (\<lambda>col schema. schema(ColumnName col \<mapsto> col)) cols Map.empty,
          False, [], rows)"
  by (simp add: loadFile_def tableNameAndExt_eq getFileFormat_def must_def getTableSchema_def
      isTableHasIdentity_def getComputeColumns_def readRecords_def index_def exampleEnv_def)

theorem required_column_fatal_witness:
  "\<exists>c src. c \<in> fst ` set (rangeOrder (exampleEnv [''001_t.json''] [idColumn] [(Map.empty :: unit row)]) 0
                 [''id'' \<mapsto> idColumn]) \<and>
     (src = ''json'' \<or> src = ''csv'') \<and>
     project Json [] (Map.empty :: unit row)
       (rangeOrder (exampleEnv [''001_t.json''] [idColumn] [(Map.empty :: unit row)]) 0 [''id'' \<mapsto> idColumn])
       ([], []) = Inl (Fatal (''required field '' @ c @ '' missing from '' @ src)) \<and>
     main (exampleEnv [''001_t.json''] [idColumn] [(Map.empty :: unit row)]) ''data'' startWorld =
       (Failed (Fatal (''required field '' @ c @ '' missing from '' @ src)),
        startWorld\<lparr>ranged := 1\<rparr>)"
proof -
  let ?E = "exampleEnv [''001_t.json''] [idColumn] [(Map.empty :: unit row)]"
  have 1: "ReadDir ?E ''data'' = Inr ([] @ ''001_t.json'' # [])"
    by (simp add: exampleEnv_def)
  have 2: "filesLoop ?E ''data'' [] startWorld = (Done, startWorld)"
    by simp
  have 3: "loadFile ?E ''data'' ''001_t.json'' (db startWorld) =
             Inr (''t'', Json, [''id'' \<mapsto> idColumn], False, [], [] @ (Map.empty :: unit row) # [])"
    by (simp add: loadFile_example idColumn_def)
  have 4: "rowsLoop ?E ''t'' Json [''id'' \<mapsto> idColumn] False [] [] startWorld = (Done, startWorld)"
    by simp
  have 5: "(''id'', idColumn) \<in> set (rangeOrder ?E (ranged startWorld) [''id'' \<mapsto> idColumn])"
    by (simp add: exampleEnv_def idColumn_def)
  have 6: "IsNullable idColumn \<noteq> ''YES''" "ColumnDefault idColumn = None"
    "DataType idColumn \<noteq> ''timestamp''" "''id'' \<notin> set []"
    by (simp_all add: idColumn_def)
  have 7: "(Map.empty :: unit row) ''id'' = None \<or> (Json = Csv \<and> (Map.empty :: unit row) ''id'' = Some (StrVal ''NULL''))"
    by simp
  have r: "ranged startWorld = 0"
    by (simp add: startWorld_def)
  show ?thesis
    using required_column_fatal[OF 1 2 3 4 5 6 7] unfolding r add_0 .
qed

text \<open>
  C2 as stated fails for a column of type timestamp: it is not nullable and has no
  default, the CSV record holds \<^verbatim>\<open>NULL\<close> for it, and the projection succeeds without
  it, in either order of the range statement.
\<close>

theorem required_column_fatal_counterexample:
  "IsNullable tsColumn \<noteq> ''YES'' \<and> ColumnDefault tsColumn = None \<and>
   project Csv [] [''id'' \<mapsto> IntVal 1, ''ts'' \<mapsto> (StrVal ''NULL'' :: unit val)]
     [(''id'', idColumn), (''ts'', tsColumn)] ([], []) = Inr ([''[id]''], [IntVal 1]) \<and>
   project Csv [] [''id'' \<mapsto> IntVal 1, ''ts'' \<mapsto> (StrVal ''NULL'' :: unit val)]
     [(''ts'', tsColumn), (''id'', idColumn)] ([], []) = Inr ([''[id]''], [IntVal 1])"
  by (simp add: tsColumn_def idColumn_def)

text \<open>
  C4. Let a run reach a row as above. If the projection of the row gives no column, the
  run ends there by \<^verbatim>\<open>return\<close>, not by a failure: the line \<^verbatim>\<open>No data to insert.\<close>
  is the last one printed, the database is the one the earlier rows left, and the result
  does not depend on the rows \<open>todo\<close> and the files \<open>after\<close>.
\<close>

theorem empty_projection_ends_run:
  assumes "ReadDir E dirPath = Inr (before @ fileName # after)"
    and "filesLoop E dirPath before w0 = (Done, w1)"
    and "loadFile E dirPath fileName (db w1) =
           Inr (tableName, ext, schema, idn, cc, done @ records # todo)"
    and "rowsLoop E tableName ext schema idn cc done w1 = (Done, w2)"
    and "project ext cc records (rangeOrder E (ranged w2) schema) ([], []) = Inr ([], values)"
  shows "main E dirPath w0 =
           (Returned, w2\<lparr>ranged := ranged w2 + 1, stdout := stdout w2 @ [''No data to insert.'']\<rparr>)"
  by (rule main_stops[OF assms(1-4) rowsLoop_project_empty[OF assms(5)]]) simp

theorem empty_projection_ends_run_witness:
  "main (exampleEnv [''001_t.json'', ''002_u.json''] [nameColumn]
           [(Map.empty :: unit row), [''name'' \<mapsto> StrVal ''Alice'']]) ''data'' startWorld =
     (Returned, startWorld\<lparr>ranged := 1, stdout := [''No data to insert.'']\<rparr>)"
proof -
  let ?E = "exampleEnv [''001_t.json'', ''002_u.json''] [nameColumn]
              [(Map.empty :: unit row), [''name'' \<mapsto> StrVal ''Alice'']]"
  have 1: "ReadDir ?E ''data'' = Inr ([] @ ''001_t.json'' # [''002_u.json''])"
    by (simp add: exampleEnv_def)
  have 2: "filesLoop ?E ''data'' [] startWorld = (Done, startWorld)"
    by simp
  have 3: "loadFile ?E ''data'' ''001_t.json'' (db startWorld) =
             Inr (''t'', Json, [''name'' \<mapsto> nameColumn], False, [],
                  [] @ (Map.empty :: unit row) # [[''name'' \<mapsto> StrVal ''Alice'']])"
    by (simp add: loadFile_example nameColumn_def)
  have 4: "rowsLoop ?E ''t'' Json [''name'' \<mapsto> nameColumn] False [] [] startWorld =
             (Done, startWorld)"
    by simp
  have 5: "project Json [] (Map.empty :: unit row) (rangeOrder ?E (ranged startWorld) [''name'' \<mapsto> nameColumn])
             ([], []) = Inr ([], [])"
    by (simp add: exampleEnv_def nameColumn_def notNullNoDefault_def)
  show ?thesis
    using empty_projection_ends_run[OF 1 2 3 4 5] by (simp add: startWorld_def)
qed

subsection \<open>Statements\<close>

lemma Join_Cons: "strings_Join (e # es) sep = e @ concat (map (\<lambda>x. sep @ x) es)"
  by (induction es arbitrary: e) simp_all

lemma columnsStrLoop_pos:
  "i > 0 \<Longrightarrow> columnsStrLoop i cols acc = acc @ concat (map (\<lambda>c. '', '' @ c) cols)"
  by (induction cols arbitrary: i acc) simp_all

lemma columnsStrLoop_Join: "columnsStrLoop 0 columns [] = strings_Join columns '', ''"
proof (cases columns)
  case Nil
  then show ?thesis by simp
next
  case (Cons c rest)
  then show ?thesis by (simp add: columnsStrLoop_pos Join_Cons)
qed

lemma placeholdersLoop_pos:
  "i > 0 \<Longrightarrow> placeholdersLoop i cols acc =
     acc @ concat (map (\<lambda>n. '', '' @ ''@p'' @ decimal (Suc n)) [i..<i + length cols])"
proof (induction cols arbitrary: i acc)
  case Nil
  show ?case by simp
next
  case (Cons c cols)
  have "[i..<i + length (c # cols)] = i # [Suc i..<Suc i + length cols]"
    using upt_conv_Cons[of i "i + Suc (length cols)"] by (simp del: upt_Suc)
  then show ?case using Cons.prems Cons.IH[of "Suc i"] by (simp del: upt_Suc)
qed

lemma placeholdersLoop_Join:
  "placeholdersLoop 0 columns [] =
     strings_Join (map (\<lambda>n. ''@p'' @ decimal n) [1..<Suc (length columns)]) '', ''"
proof (cases columns)
  case Nil
  then show ?thesis by simp
next
  case (Cons c rest)
  have "[1..<Suc (length (c # rest))] = 1 # [Suc 1..<Suc (length (c # rest))]"
    using upt_conv_Cons[of 1 "Suc (length (c # rest))"] by (simp del: upt_Suc)
  moreover have "[Suc 1..<Suc (length (c # rest))] = map Suc [1..<1 + length rest]"
    by (simp add: map_Suc_upt del: upt_Suc)
  ultimately show ?thesis using Cons placeholdersLoop_pos[of 1 rest "''@p'' @ decimal 1"]
    by (simp add: Join_Cons comp_def del: upt_Suc)
qed

lemma insertQuery_eq:
  "insertQuery tableName columns =
     ''INSERT INTO '' @ tableName @ '' ('' @ strings_Join columns '', '' @ '') VALUES ('' @
     strings_Join (map (\<lambda>n. ''@p'' @ decimal n) [1..<Suc (length columns)]) '', '' @ '');''"
  by (simp add: insertQuery_def columnsStrLoop_Join placeholdersLoop_Join)

lemma decimal_1_2: "decimal (Suc 0) = ''1''" "decimal (Suc (Suc 0)) = ''2''"
  by (simp_all add: decimal.simps)

lemma two_entries_orders:
  assumes d: "distinct (map fst kvs)" and m: "map_of kvs = [k1 \<mapsto> v1, k2 \<mapsto> v2]"
    and ne: "k1 \<noteq> k2"
  shows "kvs = [(k1, v1), (k2, v2)] \<or> kvs = [(k2, v2), (k1, v1)]"
proof -
  have mem: "(k, v) \<in> set kvs \<longleftrightarrow> (k = k1 \<and> v = v1) \<or> (k = k2 \<and> v = v2)" for k v
  proof -
    have "(k, v) \<in> set kvs \<longleftrightarrow> map_of kvs k = Some v"
      using d by (simp add: map_of_eq_Some_iff)
    also have "\<dots> \<longleftrightarrow> (k = k1 \<and> v = v1) \<or> (k = k2 \<and> v = v2)"
      unfolding m using ne by auto
    finally show ?thesis .
  qed
  have s: "set kvs = {(k1, v1), (k2, v2)}"
    using mem by auto
  have dk: "distinct kvs" using d by (rule distinct_map[THEN iffD1, THEN conjunct1])
  have "length kvs = card (set kvs)" using dk by (simp add: distinct_card)
  also have "\<dots> = 2" unfolding s using ne by simp
  finally have l: "length kvs = 2" .
  then obtain a b where ab: "kvs = [a, b]"
    by (cases kvs; cases "tl kvs") auto
  have "a \<noteq> b" using dk ab by simp
  moreover have "{a, b} = {(k1, v1), (k2, v2)}" using s ab by simp
  ultimately have "(a = (k1, v1) \<and> b = (k2, v2)) \<or> (a = (k2, v2) \<and> b = (k1, v1))"
    by (auto simp: doubleton_eq_iff)
  then show ?thesis using ab by auto
qed

text \<open>
  C6 as stated fails at its example. The schema is a Go map, and the pairs
  \<^verbatim>\<open>name\<close>, \<^verbatim>\<open>id\<close> are one of the orders in which a range statement may yield its two
  entries; in that order the same schema and the same record give the columns and the
  values the other way round, and a statement that is not the one of the scenario.
\<close>

theorem insert_statement_counterexample:
  "distinct (map fst [(''name'', nameColumn), (''id'', idColumn)]) \<and>
   map_of [(''name'', nameColumn), (''id'', idColumn)] =
     [''id'' \<mapsto> idColumn, ''name'' \<mapsto> nameColumn] \<and>
   project Csv [] [''id'' \<mapsto> IntVal 1, ''name'' \<mapsto> (StrVal ''Alice'' :: unit val)]
     [(''name'', nameColumn), (''id'', idColumn)] ([], []) =
     Inr ([''[name]'', ''[id]''], [StrVal ''Alice'', IntVal 1]) \<and>
   buildQuery ''t'' [''[name]'', ''[id]''] False =
     ''INSERT INTO t ([name], [id]) VALUES (@p1, @p2);'' \<and>
   buildQuery ''t'' [''[name]'', ''[id]''] False \<noteq>
     ''INSERT INTO t ([id], [name]) VALUES (@p1, @p2);''"
  by (simp add: idColumn_def nameColumn_def buildQuery_def insertQuery_def decimal_1_2)

text \<open>
  C6, as amended. The statement built for a projection that is not empty (the value of
  \<^verbatim>\<open>query\<close> before the identity toggles are put around it, and the whole statement of
  a table without identity column) is \<^verbatim>\<open>INSERT INTO\<close>, the table, the columns in
  brackets joined by a comma and a space, \<^verbatim>\<open>VALUES\<close>, and the placeholders
  \<^verbatim>\<open>@p1\<close> to \<^verbatim>\<open>@pN\<close> in this order, one for each value, joined the same way; the
  columns come in the order in which the schema is ranged over. In scenario A every
  order \<open>order\<close> of the two entries of the schema gives one of two results: with
  \<^verbatim>\<open>id\<close> first the statement \<^verbatim>\<open>INSERT INTO t ([id], [name]) VALUES (@p1, @p2);\<close> with
  the values of \<^verbatim>\<open>id\<close> and \<^verbatim>\<open>name\<close>, with \<^verbatim>\<open>name\<close> first the statement
  \<^verbatim>\<open>INSERT INTO t ([name], [id]) VALUES (@p1, @p2);\<close> with the values of \<^verbatim>\<open>name\<close> and
  \<^verbatim>\<open>id\<close>, whatever value \<open>one\<close> the decoder has stored for the number.
\<close>

theorem insert_statement:
  "(project ext cc records kvs ([], []) = Inr (columns, values) \<and> columns \<noteq> [] \<longrightarrow>
      (\<exists>cols. columns = map (\<lambda>col. ''['' @ col @ '']'') cols \<and>
         map records cols = map Some values \<and>
         insertQuery tableName columns =
           ''INSERT INTO '' @ tableName @ '' ('' @
           strings_Join (map (\<lambda>col. ''['' @ col @ '']'') cols) '', '' @ '') VALUES ('' @
           strings_Join (map (\<lambda>n. ''@p'' @ decimal n) [1..<Suc (length values)]) '', '' @
           '');'' \<and>
         buildQuery tableName columns False = insertQuery tableName columns)) \<and>
   (distinct (map fst order) \<and>
    map_of order = [''id'' \<mapsto> idColumn, ''name'' \<mapsto> nameColumn] \<longrightarrow>
      project fmt [] [''id'' \<mapsto> IntVal 1, ''name'' \<mapsto> StrVal ''Alice''] order ([], []) =
        Inr ([''[id]'', ''[name]''], [IntVal 1, StrVal ''Alice'']) \<or>
      project fmt [] [''id'' \<mapsto> IntVal 1, ''name'' \<mapsto> StrVal ''Alice''] order ([], []) =
        Inr ([''[name]'', ''[id]''], [StrVal ''Alice'', IntVal 1])) \<and>
   project Json [] [''id'' \<mapsto> one, ''name'' \<mapsto> StrVal ''Alice'']
     [(''id'', idColumn), (''name'', nameColumn)] ([], []) =
     Inr ([''[id]'', ''[name]''], [one, StrVal ''Alice'']) \<and>
   project Json [] [''id'' \<mapsto> one, ''name'' \<mapsto> StrVal ''Alice'']
     [(''name'', nameColumn), (''id'', idColumn)] ([], []) =
     Inr ([''[name]'', ''[id]''], [StrVal ''Alice'', one]) \<and>
   buildQuery ''t'' [''[id]'', ''[name]''] False =
     ''INSERT INTO t ([id], [name]) VALUES (@p1, @p2);'' \<and>
   buildQuery ''t'' [''[name]'', ''[id]''] False =
     ''INSERT INTO t ([name], [id]) VALUES (@p1, @p2);''"
proof -
  have "\<exists>cols. columns = map (\<lambda>col. ''['' @ col @ '']'') cols \<and>
         map records cols = map Some values \<and>
         insertQuery tableName columns =
           ''INSERT INTO '' @ tableName @ '' ('' @
           strings_Join (map (\<lambda>col. ''['' @ col @ '']'') cols) '', '' @ '') VALUES ('' @
           strings_Join (map (\<lambda>n. ''@p'' @ decimal n) [1..<Suc (length values)]) '', '' @
           '');'' \<and>
         buildQuery tableName columns False = insertQuery tableName columns"
    if p: "project ext cc records kvs ([], []) = Inr (columns, values)"
  proof -
    from project_consistent[OF p] obtain cols where
      c: "columns = map (\<lambda>col. ''['' @ col @ '']'') cols" "map records cols = map Some values"
      by blast
    have "length columns = length values"
      using c by (metis length_map)
    then show ?thesis using c
      by (intro exI[of _ cols]) (simp add: insertQuery_eq buildQuery_def)
  qed
  moreover have
    "project fmt [] [''id'' \<mapsto> IntVal 1, ''name'' \<mapsto> StrVal ''Alice''] order ([], []) =
       Inr ([''[id]'', ''[name]''], [IntVal 1, StrVal ''Alice'']) \<or>
     project fmt [] [''id'' \<mapsto> IntVal 1, ''name'' \<mapsto> StrVal ''Alice''] order ([], []) =
       Inr ([''[name]'', ''[id]''], [StrVal ''Alice'', IntVal 1])"
    if o: "distinct (map fst order) \<and>
           map_of order = [''id'' \<mapsto> idColumn, ''name'' \<mapsto> nameColumn]"
  proof -
    have "order = [(''id'', idColumn), (''name'', nameColumn)] \<or>
          order = [(''name'', nameColumn), (''id'', idColumn)]"
      using o by (intro two_entries_orders) simp_all
    then show ?thesis
      by (elim disjE) (simp_all add: idColumn_def nameColumn_def)
  qed
  moreover have "project Json [] [''id'' \<mapsto> one, ''name'' \<mapsto> StrVal ''Alice'']
     [(''id'', idColumn), (''name'', nameColumn)] ([], []) =
     Inr ([''[id]'', ''[name]''], [one, StrVal ''Alice''])"
    by (simp add: idColumn_def nameColumn_def)
  moreover have "project Json [] [''id'' \<mapsto> one, ''name'' \<mapsto> StrVal ''Alice'']
     [(''name'', nameColumn), (''id'', idColumn)] ([], []) =
     Inr ([''[name]'', ''[id]''], [StrVal ''Alice'', one])"
    by (simp add: idColumn_def nameColumn_def)
  moreover have "buildQuery ''t'' [''[id]'', ''[name]''] False =
     ''INSERT INTO t ([id], [name]) VALUES (@p1, @p2);''"
    by (simp add: buildQuery_def insertQuery_def decimal_1_2)
  moreover have "buildQuery ''t'' [''[name]'', ''[id]''] False =
     ''INSERT INTO t ([name], [id]) VALUES (@p1, @p2);''"
    by (simp add: buildQuery_def insertQuery_def decimal_1_2)
  ultimately show ?thesis by blast
qed

theorem insert_statement_witness:
  "(\<exists>cols. [''[id]'', ''[name]''] = map (\<lambda>col. ''['' @ col @ '']'') cols \<and>
     map [''id'' \<mapsto> IntVal 2, ''name'' \<mapsto> (StrVal ''Bob'' :: unit val)] cols =
       map Some [IntVal 2, StrVal ''Bob''] \<and>
     insertQuery ''people'' [''[id]'', ''[name]''] =
       ''INSERT INTO '' @ ''people'' @ '' ('' @
       strings_Join (map (\<lambda>col. ''['' @ col @ '']'') cols) '', '' @ '') VALUES ('' @
       strings_Join (map (\<lambda>n. ''@p'' @ decimal n)
         [1..<Suc (length [IntVal 2, (StrVal ''Bob'' :: unit val)])]) '', '' @
       '');'' \<and>
     buildQuery ''people'' [''[id]'', ''[name]''] False =
       insertQuery ''people'' [''[id]'', ''[name]'']) \<and>
   (project Csv [] [''id'' \<mapsto> IntVal 1, ''name'' \<mapsto> (StrVal ''Alice'' :: unit val)]
      [(''name'', nameColumn), (''id'', idColumn)] ([], []) =
      Inr ([''[id]'', ''[name]''], [IntVal 1, StrVal ''Alice'']) \<or>
    project Csv [] [''id'' \<mapsto> IntVal 1, ''name'' \<mapsto> (StrVal ''Alice'' :: unit val)]
      [(''name'', nameColumn), (''id'', idColumn)] ([], []) =
      Inr ([''[name]'', ''[id]''], [StrVal ''Alice'', IntVal 1]))"
proof -
  have h: "project Csv [] [''id'' \<mapsto> IntVal 2, ''name'' \<mapsto> (StrVal ''Bob'' :: unit val)]
             [(''id'', idColumn), (''name'', nameColumn)] ([], []) =
             Inr ([''[id]'', ''[name]''], [IntVal 2, StrVal ''Bob'']) \<and>
           [''[id]'', ''[name]''] \<noteq> []"
    by (simp add: idColumn_def nameColumn_def)
  have o: "distinct (map fst [(''name'', nameColumn), (''id'', idColumn)]) \<and>
           map_of [(''name'', nameColumn), (''id'', idColumn)] =
             [''id'' \<mapsto> idColumn, ''name'' \<mapsto> nameColumn]"
    by simp
  show ?thesis
    by (intro conjI
        conjunct1[OF insert_statement[where ext = Csv and cc = "[]" and
            kvs = "[(''id'', idColumn), (''name'', nameColumn)]"], THEN mp, OF h]
        conjunct1[OF conjunct2[OF insert_statement[where fmt = Csv and
            order = "[(''name'', nameColumn), (''id'', idColumn)]"]], THEN mp, OF o])
qed

lemma decimal_digits: "set (decimal n) \<subseteq> set ''0123456789''"
proof (induction n rule: decimal.induct)
  case (1 n)
  have d: "''0123456789'' ! k \<in> set ''0123456789''" if "k < 10" for k
    using that nth_mem[of k "''0123456789''"] by simp
  show ?case
  proof (cases "n < 10")
    case True
    then show ?thesis using d[of n] by (subst decimal.simps) simp
  next
    case False
    have "n mod 10 < 10" by simp
    then show ?thesis using False 1 d[of "n mod 10"]
      by (subst decimal.simps) simp
  qed
qed

lemma Join_no_char:
  assumes "\<forall>x \<in> set xs. c \<notin> set x" "c \<notin> set sep"
  shows "c \<notin> set (strings_Join xs sep)"
proof (cases xs)
  case Nil
  then show ?thesis by simp
next
  case (Cons e es)
  then show ?thesis using assms by (auto simp: Join_Cons)
qed

lemma placeholder_no_semicolon: "CHR '';'' \<notin> set (''@p'' @ decimal n)"
  using decimal_digits[of n] by auto

text \<open>
  C7. For a table with an identity column the statement is the toggle
  \<^verbatim>\<open>SET IDENTITY_INSERT t ON;\<close>, then the INSERT, then the toggle
  \<^verbatim>\<open>SET IDENTITY_INSERT t OFF;\<close>, all three with the same table name; for a table without
  one it is the INSERT alone. When neither the table name nor a column holds a semicolon,
  splitting the statement at its semicolons gives exactly these three statements, in
  this order, for an identity table, and the one INSERT otherwise.
\<close>

theorem identity_toggles:
  "buildQuery tableName columns True =
     ''SET IDENTITY_INSERT '' @ tableName @ '' ON;'' @ insertQuery tableName columns @
     ''SET IDENTITY_INSERT '' @ tableName @ '' OFF;'' \<and>
   buildQuery tableName columns False = insertQuery tableName columns \<and>
   (CHR '';'' \<notin> set tableName \<and> (\<forall>c \<in> set columns. CHR '';'' \<notin> set c) \<longrightarrow>
    strings_Split (buildQuery tableName columns True) (CHR '';'') =
      [''SET IDENTITY_INSERT '' @ tableName @ '' ON'',
       butlast (insertQuery tableName columns),
       ''SET IDENTITY_INSERT '' @ tableName @ '' OFF'', []] \<and>
    strings_Split (buildQuery tableName columns False) (CHR '';'') =
      [butlast (insertQuery tableName columns), []] \<and>
    take 12 (butlast (insertQuery tableName columns)) = ''INSERT INTO '')"
proof -
  define body where "body =
     ''INSERT INTO '' @ tableName @ '' ('' @ strings_Join columns '', '' @ '') VALUES ('' @
     strings_Join (map (\<lambda>n. ''@p'' @ decimal n) [1..<Suc (length columns)]) '', '' @ '')''"
  define on where "on = ''SET IDENTITY_INSERT '' @ tableName @ '' ON''"
  define off where "off = ''SET IDENTITY_INSERT '' @ tableName @ '' OFF''"
  have ins: "insertQuery tableName columns = body @ [CHR '';'']"
    by (simp add: insertQuery_eq body_def)
  have t: "buildQuery tableName columns True = on @ CHR '';'' # body @ CHR '';'' # off @ CHR '';'' # []"
    by (simp add: buildQuery_def ins on_def off_def)
  have f: "buildQuery tableName columns False = body @ CHR '';'' # []"
    by (simp add: buildQuery_def ins)
  have split3: "strings_Split (a @ CHR '';'' # b @ CHR '';'' # c @ CHR '';'' # []) (CHR '';'') =
                  [a, b, c, []]"
    if "CHR '';'' \<notin> set a" "CHR '';'' \<notin> set b" "CHR '';'' \<notin> set c" for a b c
    using that by (simp add: Split_append Split_no_sep del: strings_Split.simps(2))
  have split1: "strings_Split (b @ CHR '';'' # []) (CHR '';'') = [b, []]"
    if "CHR '';'' \<notin> set b" for b
    using that by (simp add: Split_append Split_no_sep del: strings_Split.simps(2))
  have goal3: "strings_Split (buildQuery tableName columns True) (CHR '';'') =
      [''SET IDENTITY_INSERT '' @ tableName @ '' ON'',
       butlast (insertQuery tableName columns),
       ''SET IDENTITY_INSERT '' @ tableName @ '' OFF'', []] \<and>
    strings_Split (buildQuery tableName columns False) (CHR '';'') =
      [butlast (insertQuery tableName columns), []] \<and>
    take 12 (butlast (insertQuery tableName columns)) = ''INSERT INTO ''"
    if nt: "CHR '';'' \<notin> set tableName" and nc: "\<forall>c \<in> set columns. CHR '';'' \<notin> set c"
  proof -
    have 1: "CHR '';'' \<notin> set (strings_Join columns '', '')"
      using nc by (intro Join_no_char) simp_all
    have 2: "CHR '';'' \<notin> set (strings_Join (map (\<lambda>n. ''@p'' @ decimal n)
                 [1..<Suc (length columns)]) '', '')"
      using placeholder_no_semicolon by (intro Join_no_char) (simp_all del: upt_Suc)
    have b: "CHR '';'' \<notin> set body"
      using nt 1 2 unfolding body_def by simp
    have o: "CHR '';'' \<notin> set on" "CHR '';'' \<notin> set off"
      using nt by (simp_all add: on_def off_def)
    have bl: "butlast (insertQuery tableName columns) = body"
      by (simp add: ins)
    have tk: "take 12 body = ''INSERT INTO ''"
      by (simp add: body_def)
    show ?thesis
      unfolding t f bl using split3[OF o(1) b o(2)] split1[OF b] tk
      by (simp only: on_def off_def simp_thms)
  qed
  show ?thesis
    using goal3 by (simp add: buildQuery_def)
qed

theorem identity_toggles_witness:
  "strings_Split (buildQuery ''orders'' [''[id]'', ''[qty]''] True) (CHR '';'') =
     [''SET IDENTITY_INSERT orders ON'',
      ''INSERT INTO orders ([id], [qty]) VALUES (@p1, @p2)'',
      ''SET IDENTITY_INSERT orders OFF'', []]"
proof -
  have h: "CHR '';'' \<notin> set ''orders'' \<and> (\<forall>c \<in> set [''[id]'', ''[qty]'']. CHR '';'' \<notin> set c)"
    by simp
  note r = identity_toggles[of "''orders''" "[''[id]'', ''[qty]'']", THEN conjunct2,
      THEN conjunct2, THEN mp, OF h, THEN conjunct1]
  have e: "butlast (insertQuery ''orders'' [''[id]'', ''[qty]'']) =
             ''INSERT INTO orders ([id], [qty]) VALUES (@p1, @p2)''"
    by (simp add: insertQuery_def decimal_1_2)
  show ?thesis using r unfolding e by simp
qed

subsection \<open>Reading a CSV file\<close>

lemma csvRow_eq:
  "i + length headers \<le> length record \<Longrightarrow>
   csvRow i headers record row =
     Inr (row ++ map_of (rev (zip headers (map cellValue (drop i record)))))"
proof (induction headers arbitrary: i row)
  case Nil
  show ?case by simp
next
  case (Cons h hs)
  have i: "i < length record" using Cons.prems by simp
  have d: "drop i record = record ! i # drop (Suc i) record"
    using i by (simp add: Cons_nth_drop_Suc)
  have "csvRow i (h # hs) record row =
          csvRow (Suc i) hs record (row(h \<mapsto> cellValue (record ! i)))"
    using i by (simp add: index_def)
  also have "\<dots> = Inr (row(h \<mapsto> cellValue (record ! i)) ++
                 map_of (rev (zip hs (map cellValue (drop (Suc i) record)))))"
    using Cons.prems by (intro Cons.IH) simp
  also have "row(h \<mapsto> cellValue (record ! i)) ++
                 map_of (rev (zip hs (map cellValue (drop (Suc i) record)))) =
             row ++ map_of (rev (zip (h # hs) (map cellValue (drop i record))))"
    unfolding d by (rule ext) (simp add: map_add_def split: option.splits)
  finally show ?case .
qed

lemma csvRecords_eq:
  assumes "\<forall>record \<in> set records. length headers \<le> length record"
  shows "csvRecords headers (map Inr records) allRecords =
           Inr (allRecords @
                map (\<lambda>record. map_of (rev (zip headers (map cellValue record)))) records)"
  using assms
proof (induction records arbitrary: allRecords)
  case Nil
  show ?case by simp
next
  case (Cons r rs)
  show ?case using Cons by (simp add: csvRow_eq)
qed

lemma row_at_header:
  assumes "distinct headers" "i < length headers" "length headers \<le> length record"
  shows "map_of (rev (zip headers (map f record))) (headers ! i) = Some (f (record ! i))"
proof -
  let ?kvs = "zip headers (map f record)"
  have l: "length ?kvs = length headers" using assms(3) by simp
  have d: "distinct (map fst ?kvs)" using assms(1,3) by (simp add: map_fst_zip_take)
  have "(headers ! i, f (record ! i)) \<in> set ?kvs"
    using assms(2,3) by (auto simp: in_set_zip intro!: exI[of _ i])
  then have "(headers ! i, f (record ! i)) \<in> set (rev ?kvs)" by simp
  moreover have "distinct (map fst (rev ?kvs))" using d by (simp add: rev_map[symmetric])
  ultimately show ?thesis by (rule map_of_is_SomeI[rotated])
qed

lemma digitVal_digit: "k < 10 \<Longrightarrow> digitVal (''0123456789'' ! k) = Some k"
proof -
  assume "k < 10"
  then have "k = 0 \<or> k = 1 \<or> k = 2 \<or> k = 3 \<or> k = 4 \<or> k = 5 \<or> k = 6 \<or> k = 7 \<or> k = 8 \<or> k = 9"
    by arith
  then show ?thesis by (elim disjE) (simp_all add: digitVal_def)
qed

lemma digitVal_Some: "digitVal ch = Some d \<Longrightarrow> ch \<in> set ''0123456789''"
  by (simp add: digitVal_def split: if_splits)

lemma parseDigits_append:
  "parseDigits (xs @ ys) n =
     (case parseDigits xs n of None \<Rightarrow> None | Some m \<Rightarrow> parseDigits ys m)"
  by (induction xs arbitrary: n) (simp_all split: option.splits)

lemma parseDigits_Some: "parseDigits s n = Some m \<Longrightarrow> set s \<subseteq> set ''0123456789''"
proof (induction s arbitrary: n)
  case Nil
  show ?case by simp
next
  case (Cons ch s)
  then obtain d where d: "digitVal ch = Some d" "parseDigits s (n * 10 + d) = Some m"
    by (auto split: option.splits)
  have "ch \<in> set ''0123456789''" using d(1) by (rule digitVal_Some)
  moreover have "set s \<subseteq> set ''0123456789''" using d(2) by (rule Cons.IH)
  ultimately show ?case by simp
qed

lemma parseDigits_decimal: "parseDigits (decimal n) 0 = Some n"
proof (induction n rule: decimal.induct)
  case (1 n)
  show ?case
  proof (cases "n < 10")
    case True
    then show ?thesis by (subst decimal.simps) (simp add: digitVal_digit)
  next
    case False
    have "n mod 10 < 10" by simp
    then have "digitVal (''0123456789'' ! (n mod 10)) = Some (n mod 10)"
      by (rule digitVal_digit)
    then show ?thesis using False 1
      by (subst decimal.simps) (simp add: parseDigits_append)
  qed
qed

lemma decimal_nonempty: "decimal n \<noteq> []"
  by (subst decimal.simps) simp

lemma decimal_hd: "hd (decimal n) \<noteq> CHR ''-'' \<and> hd (decimal n) \<noteq> CHR ''+''"
proof -
  have "hd (decimal n) \<in> set (decimal n)" using decimal_nonempty by simp
  then have "hd (decimal n) \<in> set ''0123456789''" using decimal_digits by blast
  then show ?thesis by auto
qed

lemma Atoi_decimal: "n < 2 ^ 63 \<Longrightarrow> strconv_Atoi (decimal n) = Some (int n)"
proof -
  assume n: "n < 2 ^ 63"
  obtain ch r where s: "decimal n = ch # r" using decimal_nonempty by (cases "decimal n") auto
  have ch: "ch \<noteq> CHR ''-''" "ch \<noteq> CHR ''+''" using decimal_hd[of n] s by simp_all
  have "parseDigits (ch # r) 0 = Some n" using parseDigits_decimal[of n] s by simp
  moreover have "int n < 2 ^ 63" using n by (metis of_nat_less_iff of_nat_numeral of_nat_power)
  moreover have "- (2 ^ 63) \<le> int n" by (simp add: order_trans[of _ 0])
  ultimately show ?thesis using ch unfolding strconv_Atoi_def s by (simp del: parseDigits.simps)
qed

lemma Atoi_minus_decimal: "n \<le> 2 ^ 63 \<Longrightarrow> strconv_Atoi (CHR ''-'' # decimal n) = Some (- int n)"
proof -
  assume n: "n \<le> 2 ^ 63"
  have "int n \<le> 2 ^ 63" using n by (metis of_nat_le_iff of_nat_numeral of_nat_power)
  then have "- (2 ^ 63) \<le> - int n" "- int n < 2 ^ 63"
    by simp_all
  then show ?thesis using parseDigits_decimal[of n] decimal_nonempty[of n]
    unfolding strconv_Atoi_def by (simp del: parseDigits.simps)
qed

lemma Atoi_Some_shape:
  assumes "strconv_Atoi cell \<noteq> None"
  shows "cell \<noteq> [] \<and> hd cell \<in> set ''+-0123456789'' \<and> set (tl cell) \<subseteq> set ''0123456789''"
proof (cases cell)
  case Nil
  then show ?thesis using assms by (simp add: strconv_Atoi_def)
next
  case (Cons ch r)
  show ?thesis
  proof (cases "ch = CHR ''-'' \<or> ch = CHR ''+''")
    case True
    then obtain m where "parseDigits r 0 = Some m"
      using assms Cons by (auto simp: strconv_Atoi_def Let_def split: if_splits option.splits)
    then have "set r \<subseteq> set ''0123456789''" by (rule parseDigits_Some)
    then show ?thesis using True Cons by auto
  next
    case False
    then obtain m where "parseDigits (ch # r) 0 = Some m"
      using assms Cons
      by (auto simp: strconv_Atoi_def Let_def simp del: parseDigits.simps
          split: if_splits option.splits)
    then have "set (ch # r) \<subseteq> set ''0123456789''" by (rule parseDigits_Some)
    then show ?thesis using Cons by auto
  qed
qed

text \<open>
  C9. The first read gives the headers; every later read gives one record, in file order,
  in which the header at a position is the key of the value of the cell at that
  position (of two equal headers the later one wins); the list of reads ending is the end
  of input, and the result is then the records and no failure. The value of a cell is the
  integer when \<^verbatim>\<open>strconv.Atoi\<close> accepts the cell and the cell itself as a string when it
  does not: every integer of 64 bits written in base 10 is accepted and read back, no
  cell with another character than a leading sign and digits is, and the cell
  \<^verbatim>\<open>NULL\<close> stays the string \<^verbatim>\<open>NULL\<close>. The library's reader gives every record as
  many fields as the first one, which is the hypothesis on the lengths.
\<close>

theorem csv_records:
  "((\<forall>record \<in> set records. length headers \<le> length record) \<longrightarrow>
      (readCsv (Inr headers # map Inr records) :: failure + 'a row list) =
        Inr (map (\<lambda>record. map_of (rev (zip headers (map cellValue record)))) records)) \<and>
   (distinct headers \<and> i < length headers \<and> length headers \<le> length record \<longrightarrow>
      (map_of (rev (zip headers (map cellValue record))) :: 'a row) (headers ! i) =
        Some (cellValue (record ! i))) \<and>
   (cellValue cell :: 'a val) =
      (case strconv_Atoi cell of Some num \<Rightarrow> IntVal num | None \<Rightarrow> StrVal cell) \<and>
   (n < 2 ^ 63 \<longrightarrow> (cellValue (decimal n) :: 'a val) = IntVal (int n)) \<and>
   (n \<le> 2 ^ 63 \<longrightarrow> (cellValue (CHR ''-'' # decimal n) :: 'a val) = IntVal (- int n)) \<and>
   (strconv_Atoi cell \<noteq> None \<longrightarrow>
      cell \<noteq> [] \<and> hd cell \<in> set ''+-0123456789'' \<and> set (tl cell) \<subseteq> set ''0123456789'') \<and>
   (cellValue ''NULL'' :: 'a val) = StrVal ''NULL''"
proof -
  have "(readCsv (Inr headers # map Inr records) :: failure + 'a row list) =
        Inr (map (\<lambda>record. map_of (rev (zip headers (map cellValue record)))) records)"
    if "\<forall>record \<in> set records. length headers \<le> length record"
    using csvRecords_eq[OF that, of "[]"] by (simp add: readCsv_def)
  moreover have "(map_of (rev (zip headers (map cellValue record))) :: 'a row) (headers ! i) =
        Some (cellValue (record ! i))"
    if "distinct headers \<and> i < length headers \<and> length headers \<le> length record"
    using that row_at_header by blast
  moreover have "(cellValue cell :: 'a val) =
      (case strconv_Atoi cell of Some num \<Rightarrow> IntVal num | None \<Rightarrow> StrVal cell)"
    by (simp add: cellValue_def)
  moreover have "(cellValue (decimal n) :: 'a val) = IntVal (int n)" if "n < 2 ^ 63"
    using Atoi_decimal[OF that] by (simp add: cellValue_def)
  moreover have "(cellValue (CHR ''-'' # decimal n) :: 'a val) = IntVal (- int n)" if "n \<le> 2 ^ 63"
    using Atoi_minus_decimal[OF that] by (simp add: cellValue_def)
  moreover have "(cellValue ''NULL'' :: 'a val) = StrVal ''NULL''"
    by (simp add: cellValue_def strconv_Atoi_def digitVal_def)
  ultimately show ?thesis using Atoi_Some_shape[of cell] by blast
qed

theorem csv_records_witness:
  "(readCsv (Inr [''id'', ''name''] # map Inr [[''1'', ''NULL''], [''x7'', ''Bob'']])
      :: failure + unit row list) =
     Inr [[''id'' \<mapsto> IntVal 1, ''name'' \<mapsto> StrVal ''NULL''],
          [''id'' \<mapsto> StrVal ''x7'', ''name'' \<mapsto> StrVal ''Bob'']]"
proof -
  have h: "\<forall>record \<in> set [[''1'', ''NULL''], [''x7'', ''Bob'']].
             length [''id'', ''name''] \<le> length record"
    by simp
  note r = csv_records[where ?'a = unit and headers = "[''id'', ''name'']" and
      records = "[[''1'', ''NULL''], [''x7'', ''Bob'']]", THEN conjunct1, THEN mp, OF h]
  have c: "(cellValue ''1'' :: unit val) = IntVal 1" "(cellValue ''NULL'' :: unit val) = StrVal ''NULL''"
    "(cellValue ''x7'' :: unit val) = StrVal ''x7''" "(cellValue ''Bob'' :: unit val) = StrVal ''Bob''"
    by (simp_all add: cellValue_def strconv_Atoi_def digitVal_def)
  show ?thesis using r by (simp add: c)
qed

end
